theory Spec2Isabelle
  imports Complex_Main "HOL-Library.Multiset" "HOL-Library.Sublist"
begin

section \<open>Data model of the ADT Pulse platform\<close>

text \<open>
  The platform class keeps its state in private fields (\<open>#accessories\<close>, \<open>#config\<close>,
  \<open>#constants\<close>, \<open>#handlers\<close>, \<open>#instance\<close>, \<open>#state\<close>). The embedding puts them in
  one record that every method takes and returns. Calls to the outside (the Homebridge
  registry, the logger, the portal client, the detectors) are recorded, in order, in the
  field \<open>trace\<close>.
\<close>

type_synonym number = rat

record gateway_info =
  gw_manufacturer :: "string option"
  gw_model :: "string option"
  gw_serialNumber :: "string option"

record panel_info =
  pn_manufacturerProvider :: "string option"
  pn_typeModel :: "string option"

record sensor_info =
  si_deviceId :: nat
  si_deviceType :: string
  si_name :: string
  si_zone :: number

text \<open>One entry of \<open>sensors\<close> in the schema \<open>platformConfig\<close>.\<close>

record sensor_config =
  sc_name :: "string option"
  adtName :: string
  adtType :: string
  adtZone :: number

text \<open>The output of \<open>platformConfig.safeParse\<close>: the keys of the schema and no other.\<close>

record config =
  cfg_platform :: string
  cfg_name :: string
  cfg_subdomain :: string
  cfg_username :: string
  cfg_password :: string
  cfg_fingerprint :: string
  cfg_mode :: string
  cfg_speed :: number
  cfg_sensors :: "sensor_config list"

record device =
  dev_id :: string
  dev_name :: string
  dev_type :: string
  hap_category :: string
  hap_uuid :: string
  dev_manufacturer :: "string option"
  dev_model :: "string option"
  dev_serial :: "string option"
  dev_zone :: "number option"

text \<open>A Homebridge platform accessory: what the constructor is given, and the context.\<close>

record accessory =
  acc_displayName :: string
  acc_UUID :: string
  acc_category :: nat
  acc_context :: device

record constants =
  adtKeepAlive :: int
  adtSyncCheck :: int
  suspendSyncing :: int
  synchronize_ms :: int
  maxLoginRetries :: int

datatype level = Info | Warn | Error | Debug

datatype message =
    InvalidConfiguration
  | SystemInformation
  | TransparencyNotice
  | NowPaused
  | NowRemovingAll
  | ConfiguringCached accessory
  | CannotAddExisting device
  | Adding device
  | UpdateMissing device
  | Updating accessory
  | Removing accessory
  | SynchronizeNoApi
  | LoginFailedTrying int
  | LoginFailedSleeping int
  | SynchronizeThrown
  | KeepAliveNoApi
  | KeepAliveSuccessful
  | KeepAliveFailed
  | KeepAliveThrown
  | SyncCheckNoApi
  | SyncCheckSuccessful
  | DataOutdated string string
  | SyncCheckFailed
  | SyncCheckThrown
  | FetchNoApi
  | FetchThrown
  | NotOnPortal string number

datatype category = PortalVersion | GatewayInformation | PanelInformation | PanelStatus
  | SensorsInformation | SensorsStatus

datatype event =
    Log level message
  | StackTracer string
  | NewADTPulse
  | NewHandler string
  | RegisterPlatformAccessories accessory
  | UpdatePlatformAccessories accessory
  | UnregisterPlatformAccessories accessory
  | SetInterval int
  | CallLogin
  | CallSleep int
  | CallPerformKeepAlive
  | CallPerformSyncCheck
  | CallGetAll
  | CallDetect category string

text \<open>The portal version, the panel status and the sensors status are never looked
  into by the platform: each is represented by its JSON text.\<close>

record platform =
  accessories :: "accessory list"
  config :: "config option"
  constants :: constants
  handlers :: "string list"
  api_instance :: bool
  isAdtKeepingAlive :: bool
  isAdtSyncChecking :: bool
  isLoggingIn :: bool
  isSyncing :: bool
  gatewayInfo :: "gateway_info option"
  panelInfo :: "panel_info option"
  panelStatus :: "string option"
  sensorsInfo :: "sensor_info list"
  sensorsStatus :: string
  syncCode :: string
  failedLogins :: int
  interval_synchronize :: "int option"
  lastRunOn_adtKeepAlive :: int
  lastRunOn_adtSyncCheck :: int
  reportedHashes :: "string list"
  trace :: "event list"

text \<open>
  Functions the platform imports from outside this file: the HAP uuid generator of
  Homebridge, \<open>condenseSensorType\<close>, \<open>generateHash\<close> and \<open>getAccessoryCategory\<close> of
  \<open>lib/utility.js\<close>, and \<open>JSON.stringify\<close> on the gateway, panel and sensors
  information. They are parameters of the model; nothing is assumed about them.
\<close>

record externals =
  uuid_generate :: "string \<Rightarrow> string"
  condenseSensorType :: "string \<Rightarrow> string"
  generateHash :: "string \<Rightarrow> string"
  getAccessoryCategory :: "string \<Rightarrow> nat"
  stringify_gatewayInfo :: "gateway_info \<Rightarrow> string"
  stringify_panelInfo :: "panel_info \<Rightarrow> string"
  stringify_sensorsInfo :: "sensor_info list \<Rightarrow> string"

definition emit :: "event \<Rightarrow> platform \<Rightarrow> platform" where
  "emit e p = p\<lparr>trace := trace p @ [e]\<rparr>"

section \<open>JavaScript helpers\<close>

text \<open>\<open>Array.prototype.findIndex\<close>: the index of the first element that satisfies the
  predicate, \<open>-1\<close> when there is none.\<close>

fun findIndex :: "('a \<Rightarrow> bool) \<Rightarrow> 'a list \<Rightarrow> int" where
  "findIndex P [] = - 1"
| "findIndex P (x # xs) =
     (if P x then 0 else (let i = findIndex P xs in if i < 0 then - 1 else i + 1))"

text \<open>Modelled from the spec: \<open>findIndexWithValue\<close> of \<open>lib/utility.js\<close> is not among the
  sources. The reconciler issues an update "if a record with the same stable id already
  exists in the registry"; the helper is taken to return the index and the value of the
  first element that satisfies the predicate, and \<open>-1\<close> with \<open>undefined\<close> when there is
  none.\<close>

definition findIndexWithValue :: "'a list \<Rightarrow> ('a \<Rightarrow> bool) \<Rightarrow> int \<times> 'a option" where
  "findIndexWithValue xs P = (findIndex P xs, find P xs)"

text \<open>The template literal \<open>`${n}`\<close> for a non-negative integer: its decimal digits.\<close>

definition digit_char :: "nat \<Rightarrow> char" where
  "digit_char d = ''0123456789'' ! d"

function string_of_nat :: "nat \<Rightarrow> string" where
  "string_of_nat n =
     (if n < 10 then [digit_char n] else string_of_nat (n div 10) @ [digit_char (n mod 10)])"
  by pat_completeness auto
termination
  by (relation "measure (\<lambda>n. n)") auto

declare string_of_nat.simps [simp del]

section \<open>The accessory registry: add, update, remove\<close>

definition same_uuid :: "device \<Rightarrow> accessory \<Rightarrow> bool" where
  "same_uuid d a \<longleftrightarrow> hap_uuid d = hap_uuid (acc_context a)"

definition ensure_handler :: "string \<Rightarrow> platform \<Rightarrow> platform" where
  "ensure_handler i p =
     (if i \<notin> set (handlers p) then emit (NewHandler i) (p\<lparr>handlers := handlers p @ [i]\<rparr>) else p)"

definition configureAccessory :: "accessory \<Rightarrow> platform \<Rightarrow> platform" where
  "configureAccessory a p =
     (let p1 = emit (Log Info (ConfiguringCached a)) p
      in p1\<lparr>accessories := accessories p1 @ [a]\<rparr>)"

definition addAccessory :: "externals \<Rightarrow> device \<Rightarrow> platform \<Rightarrow> platform" where
  "addAccessory X d p =
     (let accessoryIndex = findIndex (same_uuid d) (accessories p) in
      if accessoryIndex \<ge> 0 then emit (Log Error (CannotAddExisting d)) p
      else
        let newAccessory = \<lparr>acc_displayName = dev_name d, acc_UUID = hap_uuid d,
              acc_category = getAccessoryCategory X (hap_category d), acc_context = d\<rparr>;
            p1 = emit (Log Info (Adding d)) p;
            p2 = ensure_handler (dev_id d) p1;
            p3 = p2\<lparr>accessories := accessories p2 @ [newAccessory]\<rparr>
        in emit (RegisterPlatformAccessories newAccessory) p3)"

definition updateAccessory :: "device \<Rightarrow> platform \<Rightarrow> platform" where
  "updateAccessory d p =
     (case findIndexWithValue (accessories p) (same_uuid d) of
        (index, None) \<Rightarrow> emit (Log Warn (UpdateMissing d)) p
      | (index, Some v) \<Rightarrow>
          if index < 0 then emit (Log Warn (UpdateMissing d)) p
          else
            let p1 = emit (Log Debug (Updating v)) p;
                v' = v\<lparr>acc_context := d, acc_displayName := dev_name d\<rparr>;
                p2 = ensure_handler (dev_id d) p1;
                p3 = p2\<lparr>accessories := (accessories p2)[nat index := v']\<rparr>
            in emit (UpdatePlatformAccessories v') p3)"

definition removeAccessory :: "accessory \<Rightarrow> platform \<Rightarrow> platform" where
  "removeAccessory a p =
     (let p1 = emit (Log Info (Removing a)) p;
          p2 = p1\<lparr>accessories :=
                 filter (\<lambda>e. hap_uuid (acc_context e) \<noteq> hap_uuid (acc_context a)) (accessories p1)\<rparr>
      in emit (UnregisterPlatformAccessories a) p2)"

section \<open>The reconciler: unifyDevices and pollAccessories\<close>

fun pollAccessories :: "externals \<Rightarrow> device list \<Rightarrow> platform \<Rightarrow> platform" where
  "pollAccessories X [] p = p"
| "pollAccessories X (d # ds) p =
     (let accessoryIndex = findIndex (same_uuid d) (accessories p) in
      pollAccessories X ds
        (if accessoryIndex \<ge> 0 then updateAccessory d p else addAccessory X d p))"

definition gateway_device :: "externals \<Rightarrow> gateway_info \<Rightarrow> device" where
  "gateway_device X g =
     \<lparr>dev_id = ''adt-device-0'', dev_name = ''ADT Pulse Gateway'', dev_type = ''gateway'',
      hap_category = ''BRIDGE'', hap_uuid = uuid_generate X ''adt-device-0'',
      dev_manufacturer = gw_manufacturer g, dev_model = gw_model g,
      dev_serial = gw_serialNumber g, dev_zone = None\<rparr>"

definition panel_device :: "externals \<Rightarrow> panel_info \<Rightarrow> device" where
  "panel_device X pn =
     \<lparr>dev_id = ''adt-device-1'', dev_name = ''Security Panel'', dev_type = ''panel'',
      hap_category = ''SECURITY_SYSTEM'', hap_uuid = uuid_generate X ''adt-device-1'',
      dev_manufacturer = pn_manufacturerProvider pn, dev_model = pn_typeModel pn,
      dev_serial = None, dev_zone = None\<rparr>"

text \<open>The predicate given to \<open>sensorsInfo.find\<close>: strict equality on the name, on the
  condensed type and on the zone.\<close>

definition sensor_matches :: "externals \<Rightarrow> sensor_config \<Rightarrow> sensor_info \<Rightarrow> bool" where
  "sensor_matches X c s \<longleftrightarrow>
     adtName c = si_name s \<and> adtType c = condenseSensorType X (si_deviceType s)
     \<and> adtZone c = si_zone s"

definition sensor_device :: "externals \<Rightarrow> sensor_config \<Rightarrow> sensor_info \<Rightarrow> device" where
  "sensor_device X c s =
     (let i = ''adt-device-'' @ string_of_nat (si_deviceId s) in
      \<lparr>dev_id = i, dev_name = (case sc_name c of Some n \<Rightarrow> n | None \<Rightarrow> adtName c),
       dev_type = adtType c, hap_category = ''SENSOR'', hap_uuid = uuid_generate X i,
       dev_manufacturer = Some ''ADT'', dev_model = Some (si_deviceType s),
       dev_serial = None, dev_zone = Some (adtZone c)\<rparr>)"

text \<open>The loop over \<open>this.#config.sensors\<close>: the devices pushed so far and the platform
  (for the warnings) are carried along.\<close>

fun unify_sensors ::
  "externals \<Rightarrow> sensor_info list \<Rightarrow> sensor_config list \<Rightarrow> device list \<Rightarrow> platform
   \<Rightarrow> device list \<times> platform" where
  "unify_sensors X si [] devices p = (devices, p)"
| "unify_sensors X si (c # cs) devices p =
     (case find (sensor_matches X c) si of
        None \<Rightarrow> unify_sensors X si cs devices (emit (Log Warn (NotOnPortal (adtName c) (adtZone c))) p)
      | Some sensor \<Rightarrow> unify_sensors X si cs (devices @ [sensor_device X c sensor]) p)"

text \<open>The body of \<open>unifyDevices\<close> up to the call of \<open>pollAccessories\<close>: the canonical
  device list, and the platform with the warnings logged.\<close>

definition unify_list :: "externals \<Rightarrow> platform \<Rightarrow> device list \<times> platform" where
  "unify_list X p =
     (let devices0 = [];
          devices1 = (case gatewayInfo p of None \<Rightarrow> devices0
                      | Some g \<Rightarrow> devices0 @ [gateway_device X g]);
          devices2 = (case panelInfo p of None \<Rightarrow> devices1
                      | Some pn \<Rightarrow> devices1 @ [panel_device X pn])
      in case config p of
           None \<Rightarrow> (devices2, p)
         | Some c \<Rightarrow> unify_sensors X (sensorsInfo p) (cfg_sensors c) devices2 p)"

definition unifyDevices :: "externals \<Rightarrow> platform \<Rightarrow> platform" where
  "unifyDevices X p = (case unify_list X p of (devices, p') \<Rightarrow> pollAccessories X devices p')"

text \<open>One iteration of the loop of \<open>pollAccessories\<close>.\<close>

definition poll_one :: "externals \<Rightarrow> device \<Rightarrow> platform \<Rightarrow> platform" where
  "poll_one X d p =
     (if findIndex (same_uuid d) (accessories p) \<ge> 0 then updateAccessory d p else addAccessory X d p)"

section \<open>Observing the registry\<close>

text \<open>The calls made to the Homebridge registry, read off the trace, each with the uuid
  of the accessory it is made for.\<close>

definition acc_uuid :: "accessory \<Rightarrow> string" where
  "acc_uuid a = hap_uuid (acc_context a)"

definition cached_uuids :: "platform \<Rightarrow> string set" where
  "cached_uuids p = set (map acc_uuid (accessories p))"

datatype call = Add string | Update string | Remove string

fun call_of :: "event \<Rightarrow> call list" where
  "call_of (RegisterPlatformAccessories a) = [Add (acc_uuid a)]"
| "call_of (UpdatePlatformAccessories a) = [Update (acc_uuid a)]"
| "call_of (UnregisterPlatformAccessories a) = [Remove (acc_uuid a)]"
| "call_of _ = []"

definition calls :: "event list \<Rightarrow> call list" where
  "calls t = concat (map call_of t)"

text \<open>What a method appended to the trace.\<close>

definition new_events :: "platform \<Rightarrow> platform \<Rightarrow> event list" where
  "new_events p p' = drop (length (trace p)) (trace p')"

text \<open>The claim's rule for \<open>pollAccessories\<close>, written from its words: for each device
  in turn, an update when its uuid is cached and an add otherwise, after which the uuid
  is cached.\<close>

fun spec_poll_calls :: "string set \<Rightarrow> device list \<Rightarrow> call list" where
  "spec_poll_calls C [] = []"
| "spec_poll_calls C (d # ds) =
     (if hap_uuid d \<in> C then Update (hap_uuid d) else Add (hap_uuid d))
       # spec_poll_calls (insert (hap_uuid d) C) ds"

text \<open>The claim's rule for the sensors of \<open>unifyDevices\<close>, written from its words: a
  configured entry gives one device when some portal sensor matches it on name,
  condensed type and zone, built from the first such sensor, and none otherwise.\<close>

definition spec_entry_devices :: "externals \<Rightarrow> sensor_info list \<Rightarrow> sensor_config \<Rightarrow> device list" where
  "spec_entry_devices X si c =
     (if \<exists>s\<in>set si. sensor_matches X c s
      then [sensor_device X c (hd (filter (sensor_matches X c) si))] else [])"

definition spec_entry_warnings :: "externals \<Rightarrow> sensor_info list \<Rightarrow> sensor_config \<Rightarrow> event list" where
  "spec_entry_warnings X si c =
     (if \<exists>s\<in>set si. sensor_matches X c s then []
      else [Log Warn (NotOnPortal (adtName c) (adtZone c))])"

definition fixed_devices :: "externals \<Rightarrow> platform \<Rightarrow> device list" where
  "fixed_devices X p =
     (case gatewayInfo p of None \<Rightarrow> [] | Some g \<Rightarrow> [gateway_device X g])
     @ (case panelInfo p of None \<Rightarrow> [] | Some pn \<Rightarrow> [panel_device X pn])"

text \<open>The portal device identifiers of the sensors that the configured entries are
  matched to, one for each entry that has a match.\<close>

definition matched_ids :: "externals \<Rightarrow> sensor_info list \<Rightarrow> sensor_config list \<Rightarrow> nat list" where
  "matched_ids X si cs =
     concat (map (\<lambda>c. case find (sensor_matches X c) si of None \<Rightarrow> []
                        | Some s \<Rightarrow> [si_deviceId s]) cs)"

section \<open>The configuration schema and the constructor\<close>

text \<open>The raw Homebridge configuration is a JavaScript value. Strings are compared and
  measured as lists of characters.\<close>

datatype jsval = JUndefined | JNull | JBool bool | JNum number | JStr string
  | JArr "jsval list" | JObj "(string \<times> jsval) list"

definition js_prop :: "(string \<times> jsval) list \<Rightarrow> string \<Rightarrow> jsval" where
  "js_prop kvs k = (case map_of kvs k of None \<Rightarrow> JUndefined | Some v \<Rightarrow> v)"

definition z_string :: "nat \<Rightarrow> nat \<Rightarrow> jsval \<Rightarrow> string option" where
  "z_string lo hi v =
     (case v of JStr s \<Rightarrow> if lo \<le> length s \<and> length s \<le> hi then Some s else None
      | _ \<Rightarrow> None)"

definition z_literals :: "string list \<Rightarrow> jsval \<Rightarrow> string option" where
  "z_literals ls v = (case v of JStr s \<Rightarrow> if s \<in> set ls then Some s else None | _ \<Rightarrow> None)"

definition z_number_literals :: "number list \<Rightarrow> jsval \<Rightarrow> number option" where
  "z_number_literals ls v =
     (case v of JNum n \<Rightarrow> if n \<in> set ls then Some n else None | _ \<Rightarrow> None)"

definition z_number :: "number \<Rightarrow> number \<Rightarrow> jsval \<Rightarrow> number option" where
  "z_number lo hi v =
     (case v of JNum n \<Rightarrow> if lo \<le> n \<and> n \<le> hi then Some n else None | _ \<Rightarrow> None)"

definition z_optional :: "(jsval \<Rightarrow> 'a option) \<Rightarrow> jsval \<Rightarrow> 'a option option" where
  "z_optional f v = (case v of JUndefined \<Rightarrow> Some None | _ \<Rightarrow> map_option Some (f v))"

definition sensor_schema :: "jsval \<Rightarrow> sensor_config option" where
  "sensor_schema v =
     (case v of
        JObj kvs \<Rightarrow>
          Option.bind (z_optional (z_string 1 50) (js_prop kvs ''name'')) (\<lambda>n.
          Option.bind (z_string 1 100 (js_prop kvs ''adtName'')) (\<lambda>an.
          Option.bind (z_literals [''co'', ''doorWindow'', ''fire'', ''flood'', ''glass'',
                         ''motion'', ''panic'', ''temperature''] (js_prop kvs ''adtType'')) (\<lambda>ty.
          Option.bind (z_number 1 99 (js_prop kvs ''adtZone'')) (\<lambda>az.
          Some \<lparr>sc_name = n, adtName = an, adtType = ty, adtZone = az\<rparr>))))
      | _ \<Rightarrow> None)"

definition sensors_schema :: "jsval \<Rightarrow> sensor_config list option" where
  "sensors_schema v =
     (case v of
        JArr vs \<Rightarrow> if 1 \<le> length vs \<and> length vs \<le> 148 then those (map sensor_schema vs) else None
      | _ \<Rightarrow> None)"

text \<open>\<open>platformConfig.safeParse\<close>: \<open>None\<close> when \<open>success\<close> is false, the parsed data
  otherwise. A \<open>z.object\<close> drops the keys its schema does not name.\<close>

definition platformConfig_safeParse :: "jsval \<Rightarrow> config option" where
  "platformConfig_safeParse v =
     (case v of
        JObj kvs \<Rightarrow>
          Option.bind (z_literals [''ADTPulse''] (js_prop kvs ''platform'')) (\<lambda>pl.
          Option.bind (z_string 1 50 (js_prop kvs ''name'')) (\<lambda>nm.
          Option.bind (z_literals [''portal'', ''portal-ca''] (js_prop kvs ''subdomain'')) (\<lambda>sd.
          Option.bind (z_string 1 100 (js_prop kvs ''username'')) (\<lambda>un.
          Option.bind (z_string 1 300 (js_prop kvs ''password'')) (\<lambda>pw.
          Option.bind (z_string 1 5120 (js_prop kvs ''fingerprint'')) (\<lambda>fp.
          Option.bind (z_literals [''normal'', ''paused'', ''reset''] (js_prop kvs ''mode'')) (\<lambda>md.
          Option.bind (z_number_literals [1, 0.75, 0.5, 0.25] (js_prop kvs ''speed'')) (\<lambda>sp.
          Option.bind (sensors_schema (js_prop kvs ''sensors'')) (\<lambda>ss.
          Some \<lparr>cfg_platform = pl, cfg_name = nm, cfg_subdomain = sd, cfg_username = un,
                cfg_password = pw, cfg_fingerprint = fp, cfg_mode = md, cfg_speed = sp,
                cfg_sensors = ss\<rparr>)))))))))
      | _ \<Rightarrow> None)"

definition sensor_object :: "sensor_config \<Rightarrow> jsval" where
  "sensor_object c =
     JObj ((case sc_name c of None \<Rightarrow> [] | Some n \<Rightarrow> [(''name'', JStr n)])
           @ [(''adtName'', JStr (adtName c)), (''adtType'', JStr (adtType c)),
              (''adtZone'', JNum (adtZone c))])"

text \<open>Reading a property of the parsed configuration, as \<open>this.#config.pause\<close> does: a
  key of the schema gives its value, any other key gives \<open>undefined\<close>.\<close>

definition config_prop :: "config \<Rightarrow> string \<Rightarrow> jsval" where
  "config_prop c k =
     js_prop [(''platform'', JStr (cfg_platform c)), (''name'', JStr (cfg_name c)),
           (''subdomain'', JStr (cfg_subdomain c)), (''username'', JStr (cfg_username c)),
           (''password'', JStr (cfg_password c)), (''fingerprint'', JStr (cfg_fingerprint c)),
           (''mode'', JStr (cfg_mode c)), (''speed'', JNum (cfg_speed c)),
           (''sensors'', JArr (map sensor_object (cfg_sensors c)))] k"

definition initial_constants :: constants where
  "initial_constants =
     \<lparr>adtKeepAlive = 538000, adtSyncCheck = 3000, suspendSyncing = 1800000,
      synchronize_ms = 1000, maxLoginRetries = 3\<rparr>"

definition initial_platform :: platform where
  "initial_platform =
     \<lparr>accessories = [], config = None, constants = initial_constants, handlers = [],
      api_instance = False, isAdtKeepingAlive = False, isAdtSyncChecking = False,
      isLoggingIn = False, isSyncing = False, gatewayInfo = None, panelInfo = None,
      panelStatus = None, sensorsInfo = [], sensorsStatus = ''[]'', syncCode = ''1-0-0'',
      failedLogins = 0, interval_synchronize = None, lastRunOn_adtKeepAlive = 0,
      lastRunOn_adtSyncCheck = 0, reportedHashes = [], trace = []\<rparr>"

text \<open>The constructor: the platform it leaves, and the configuration captured by the
  \<open>didFinishLaunching\<close> listener (\<open>None\<close> when the configuration is invalid and no
  listener is registered).\<close>

definition constructor :: "jsval \<Rightarrow> platform \<times> config option" where
  "constructor raw =
     (case platformConfig_safeParse raw of
        None \<Rightarrow> (emit (StackTracer ''zod-error'')
                   (emit (Log Error InvalidConfiguration) initial_platform), None)
      | Some c \<Rightarrow> (initial_platform, Some c))"

text \<open>\<open>synchronize\<close> registers the tick with \<open>setInterval\<close>.\<close>

definition synchronize :: "platform \<Rightarrow> platform" where
  "synchronize p =
     (emit (SetInterval (synchronize_ms (constants p))) p)
       \<lparr>interval_synchronize := Some (synchronize_ms (constants p))\<rparr>"

text \<open>The loop \<open>for (let i = this.#accessories.length - 1; i >= 0; i -= 1)\<close>; the first
  argument is \<open>i + 1\<close>. Reading \<open>this.#accessories[i]\<close> past the end gives \<open>undefined\<close>
  and \<open>removeAccessory\<close> throws a TypeError on it: \<open>Inl\<close> with the platform at that
  point.\<close>

fun remove_all :: "nat \<Rightarrow> platform \<Rightarrow> platform + platform" where
  "remove_all 0 p = Inr p"
| "remove_all (Suc i) p =
     (if i < length (accessories p) then remove_all i (removeAccessory (accessories p ! i) p)
      else Inl p)"

text \<open>The listener of \<open>didFinishLaunching\<close>, run after Homebridge has restored the
  cached accessories through \<open>configureAccessory\<close>.\<close>

definition didFinishLaunching :: "config \<Rightarrow> platform \<Rightarrow> platform + platform" where
  "didFinishLaunching c p =
     (let p1 = p\<lparr>config := Some c\<rparr>;
          p2 = emit NewADTPulse (p1\<lparr>api_instance := True\<rparr>);
          p3 = emit (Log Info SystemInformation) p2;
          p4 = emit (Log Info TransparencyNotice) p3
      in if config_prop c ''pause'' = JBool True then Inr (emit (Log Warn NowPaused) p4)
         else if config_prop c ''reset'' = JBool True
         then (let p5 = emit (Log Warn NowRemovingAll) p4
               in remove_all (length (accessories p5)) p5)
         else Inr (synchronize p4))"

text \<open>Start-up as Homebridge drives it: the constructor, \<open>configureAccessory\<close> for each
  accessory restored from disk, then the listener if one was registered.\<close>

definition launch :: "jsval \<Rightarrow> accessory list \<Rightarrow> platform + platform" where
  "launch raw cached =
     (case constructor raw of
        (p, None) \<Rightarrow> Inr (fold configureAccessory cached p)
      | (p, Some c) \<Rightarrow> didFinishLaunching c (fold configureAccessory cached p))"

section \<open>The scheduler\<close>

text \<open>
  The tick and the two sub-tasks are \<open>async\<close> functions. Each is cut at its \<open>await\<close>s
  into segments that run without interruption: the function that starts it runs up to
  the first \<open>await\<close> and returns the platform and the tasks left suspended; a suspended
  task is resumed with what the awaited call produced. What \<open>isAuthenticated()\<close> and
  \<open>Date.now()\<close> answer during a segment are arguments of the segment. An awaited call
  either returns or throws; the code between two \<open>await\<close>s is taken not to throw.
\<close>

datatype 'a outcome = Returned 'a | Threw

text \<open>The five results of \<open>Promise.all\<close> in \<open>fetchUpdatedInformation\<close>; \<open>None\<close> is a
  result whose \<open>success\<close> is false.\<close>

record get_all =
  ga_gatewayInfo :: "gateway_info option"
  ga_panelInfo :: "panel_info option"
  ga_panelStatus :: "string option"
  ga_sensorsInfo :: "sensor_info list option"
  ga_sensorsStatus :: "string option"

datatype observation = ObsGateway gateway_info | ObsPanel panel_info | ObsPanelStatus string
  | ObsSensorsInfo "sensor_info list" | ObsSensorsStatus string

text \<open>A suspended task, named by the \<open>await\<close> it stands at, with the local variables
  its continuation reads.\<close>

datatype task =
    TickLogin
  | TickDetect string
  | TickSleep
  | KeepAliveAwait
  | SyncCheckAwait
  | FetchAll
  | FetchDetect observation "observation list"
  | SyncCheckResumed

datatype resumption =
    LoginDone "(bool \<times> string) outcome"
  | DetectDone "bool outcome"
  | SleepDone
  | KeepAliveDone "bool outcome"
  | SyncCheckDone "(bool \<times> string) outcome"
  | GetAllDone "get_all outcome"
  | Yielded

subsection \<open>synchronizeKeepAlive\<close>

definition synchronizeKeepAlive :: "platform \<Rightarrow> platform \<times> task list" where
  "synchronizeKeepAlive p =
     (if isAdtKeepingAlive p then (p, [])
      else if \<not> api_instance p then (emit (Log Warn KeepAliveNoApi) p, [])
      else (emit CallPerformKeepAlive (p\<lparr>isAdtKeepingAlive := True\<rparr>), [KeepAliveAwait]))"

definition keepAlive_done :: "bool outcome \<Rightarrow> int \<Rightarrow> platform \<Rightarrow> platform \<times> task list" where
  "keepAlive_done r now p =
     (case r of
        Threw \<Rightarrow>
          ((emit (StackTracer ''serialize-error'') (emit (Log Error KeepAliveThrown) p))
             \<lparr>isAdtKeepingAlive := False\<rparr>, [])
      | Returned success \<Rightarrow>
          let p1 = (if success then emit (Log Debug KeepAliveSuccessful) p
                    else emit (StackTracer ''api-response'') (emit (Log Error KeepAliveFailed) p));
              p2 = p1\<lparr>lastRunOn_adtKeepAlive := now\<rparr>
          in (p2\<lparr>isAdtKeepingAlive := False\<rparr>, []))"

subsection \<open>fetchUpdatedInformation\<close>

fun obs_category :: "observation \<Rightarrow> category" where
  "obs_category (ObsGateway g) = GatewayInformation"
| "obs_category (ObsPanel pn) = PanelInformation"
| "obs_category (ObsPanelStatus st) = PanelStatus"
| "obs_category (ObsSensorsInfo ss) = SensorsInformation"
| "obs_category (ObsSensorsStatus st) = SensorsStatus"

text \<open>\<open>JSON.stringify\<close> of the information of a result.\<close>

fun obs_payload :: "externals \<Rightarrow> observation \<Rightarrow> string" where
  "obs_payload X (ObsGateway g) = stringify_gatewayInfo X g"
| "obs_payload X (ObsPanel pn) = stringify_panelInfo X pn"
| "obs_payload X (ObsPanelStatus st) = st"
| "obs_payload X (ObsSensorsInfo ss) = stringify_sensorsInfo X ss"
| "obs_payload X (ObsSensorsStatus st) = st"

fun store_observation :: "observation \<Rightarrow> platform \<Rightarrow> platform" where
  "store_observation (ObsGateway g) p = p\<lparr>gatewayInfo := Some g\<rparr>"
| "store_observation (ObsPanel pn) p = p\<lparr>panelInfo := Some pn\<rparr>"
| "store_observation (ObsPanelStatus st) p = p\<lparr>panelStatus := Some st\<rparr>"
| "store_observation (ObsSensorsInfo ss) p = p\<lparr>sensorsInfo := ss\<rparr>"
| "store_observation (ObsSensorsStatus st) p = p\<lparr>sensorsStatus := st\<rparr>"

text \<open>The results with \<open>success\<close> true, in the order the function goes through them.\<close>

definition successful :: "get_all \<Rightarrow> observation list" where
  "successful ga =
     (case ga_gatewayInfo ga of None \<Rightarrow> [] | Some g \<Rightarrow> [ObsGateway g])
     @ (case ga_panelInfo ga of None \<Rightarrow> [] | Some pn \<Rightarrow> [ObsPanel pn])
     @ (case ga_panelStatus ga of None \<Rightarrow> [] | Some st \<Rightarrow> [ObsPanelStatus st])
     @ (case ga_sensorsInfo ga of None \<Rightarrow> [] | Some ss \<Rightarrow> [ObsSensorsInfo ss])
     @ (case ga_sensorsStatus ga of None \<Rightarrow> [] | Some st \<Rightarrow> [ObsSensorsStatus st])"

definition save_hash :: "string \<Rightarrow> platform \<Rightarrow> platform" where
  "save_hash contentHash p = p\<lparr>reportedHashes := reportedHashes p @ [contentHash]\<rparr>"

text \<open>The five \<open>if (requests[k].success)\<close> blocks, then \<open>unifyDevices\<close>. A block stores the
  information, and calls the detector when the hash of its JSON text has not been
  reported; the function is then suspended at that \<open>await\<close> with the blocks still to run.
  \<open>unifyDevices\<close> and \<open>pollAccessories\<close> have no \<open>await\<close> on an outside call: they run in
  the segment that reaches them, and the function returns to \<open>synchronizeSyncCheck\<close>,
  which is resumed in a later segment.\<close>

fun fetch_process :: "externals \<Rightarrow> observation list \<Rightarrow> platform \<Rightarrow> platform \<times> task list" where
  "fetch_process X [] p = (unifyDevices X p, [SyncCheckResumed])"
| "fetch_process X (ob # obs) p =
     (let contentHash = generateHash X (obs_payload X ob);
          p1 = store_observation ob p
      in if find (\<lambda>reportedHash. contentHash = reportedHash) (reportedHashes p1) = None
         then (emit (CallDetect (obs_category ob) (obs_payload X ob)) p1, [FetchDetect ob obs])
         else fetch_process X obs p1)"

definition fetch_thrown :: "platform \<Rightarrow> platform \<times> task list" where
  "fetch_thrown p =
     (emit (StackTracer ''serialize-error'') (emit (Log Error FetchThrown) p), [SyncCheckResumed])"

definition fetchUpdatedInformation :: "platform \<Rightarrow> platform \<times> task list" where
  "fetchUpdatedInformation p =
     (if \<not> api_instance p then (emit (Log Warn FetchNoApi) p, [SyncCheckResumed])
      else (emit CallGetAll p, [FetchAll]))"

definition fetch_all_done :: "externals \<Rightarrow> get_all outcome \<Rightarrow> platform \<Rightarrow> platform \<times> task list" where
  "fetch_all_done X r p =
     (case r of Threw \<Rightarrow> fetch_thrown p | Returned requests \<Rightarrow> fetch_process X (successful requests) p)"

definition fetch_detect_done ::
  "externals \<Rightarrow> observation \<Rightarrow> observation list \<Rightarrow> bool outcome \<Rightarrow> platform \<Rightarrow> platform \<times> task list" where
  "fetch_detect_done X ob obs r p =
     (case r of
        Threw \<Rightarrow> fetch_thrown p
      | Returned detectedNew \<Rightarrow>
          fetch_process X obs
            (if detectedNew then save_hash (generateHash X (obs_payload X ob)) p else p))"

subsection \<open>synchronizeSyncCheck\<close>

definition synchronizeSyncCheck :: "platform \<Rightarrow> platform \<times> task list" where
  "synchronizeSyncCheck p =
     (if isAdtSyncChecking p then (p, [])
      else if \<not> api_instance p then (emit (Log Warn SyncCheckNoApi) p, [])
      else (emit CallPerformSyncCheck (p\<lparr>isAdtSyncChecking := True\<rparr>), [SyncCheckAwait]))"

text \<open>The end of the \<open>try\<close> block and the \<open>finally\<close> block.\<close>

definition syncCheck_finish :: "int \<Rightarrow> platform \<Rightarrow> platform" where
  "syncCheck_finish now p = (p\<lparr>lastRunOn_adtSyncCheck := now\<rparr>)\<lparr>isAdtSyncChecking := False\<rparr>"

definition syncCheck_done :: "(bool \<times> string) outcome \<Rightarrow> int \<Rightarrow> platform \<Rightarrow> platform \<times> task list" where
  "syncCheck_done r now p =
     (case r of
        Threw \<Rightarrow>
          ((emit (StackTracer ''serialize-error'') (emit (Log Error SyncCheckThrown) p))
             \<lparr>isAdtSyncChecking := False\<rparr>, [])
      | Returned (success, code) \<Rightarrow>
          if success then
            (let p1 = emit (Log Debug SyncCheckSuccessful) p in
             if code \<noteq> syncCode p1
             then (let p2 = emit (Log Debug (DataOutdated (syncCode p1) code)) p1;
                       p3 = p2\<lparr>syncCode := code\<rparr>
                   in fetchUpdatedInformation p3)
             else (syncCheck_finish now p1, []))
          else (syncCheck_finish now
                  (emit (StackTracer ''api-response'') (emit (Log Error SyncCheckFailed) p)), []))"

definition syncCheck_resumed :: "int \<Rightarrow> platform \<Rightarrow> platform \<times> task list" where
  "syncCheck_resumed now p = (syncCheck_finish now p, [])"

subsection \<open>The tick of synchronize\<close>

text \<open>The \<open>finally\<close> block, and the \<open>catch\<close> block followed by it.\<close>

definition finish_sync :: "platform \<Rightarrow> platform" where
  "finish_sync p = p\<lparr>isSyncing := False\<rparr>"

definition synchronize_thrown :: "platform \<Rightarrow> platform \<times> task list" where
  "synchronize_thrown p =
     (finish_sync (emit (StackTracer ''serialize-error'') (emit (Log Error SynchronizeThrown) p)), [])"

text \<open>From \<open>const currentTimestamp = Date.now()\<close> to the end: the two sub-tasks are
  started without being awaited.\<close>

definition tick_subtasks :: "int \<Rightarrow> platform \<Rightarrow> platform \<times> task list" where
  "tick_subtasks currentTimestamp p =
     (let (p1, ts1) =
            (if currentTimestamp - lastRunOn_adtKeepAlive p \<ge> adtKeepAlive (constants p)
             then synchronizeKeepAlive p else (p, []));
          (p2, ts2) =
            (if currentTimestamp - lastRunOn_adtSyncCheck p1 \<ge> adtSyncCheck (constants p1)
             then synchronizeSyncCheck p1 else (p1, []))
      in (finish_sync p2, ts1 @ ts2))"

text \<open>From "If failed logins have reached the max login retries" on.\<close>

definition tick_after_login :: "bool \<Rightarrow> int \<Rightarrow> platform \<Rightarrow> platform \<times> task list" where
  "tick_after_login authenticated now p =
     (if failedLogins p \<ge> maxLoginRetries (constants p)
      then (emit (CallSleep (suspendSyncing (constants p))) p, [TickSleep])
      else if \<not> authenticated then (finish_sync p, [])
      else tick_subtasks now p)"

text \<open>"ACTIVITY: Finish login", then the rest.\<close>

definition tick_login_finished :: "bool \<Rightarrow> int \<Rightarrow> platform \<Rightarrow> platform \<times> task list" where
  "tick_login_finished authenticated now p =
     tick_after_login authenticated now (p\<lparr>isLoggingIn := False\<rparr>)"

text \<open>The callback given to \<open>setInterval\<close>, up to its first \<open>await\<close>.\<close>

definition tick :: "bool \<Rightarrow> int \<Rightarrow> platform \<Rightarrow> platform \<times> task list" where
  "tick authenticated now p =
     (if isSyncing p then (p, [])
      else if \<not> api_instance p then (emit (Log Warn SynchronizeNoApi) p, [])
      else
        let p1 = p\<lparr>isSyncing := True\<rparr> in
        if \<not> authenticated then
          (if \<not> isLoggingIn p1 then (emit CallLogin (p1\<lparr>isLoggingIn := True\<rparr>), [TickLogin])
           else tick_after_login authenticated now p1)
        else tick_subtasks now p1)"

text \<open>After \<open>await this.#instance.login()\<close>: the result is the flag \<open>success\<close> and the
  portal version.\<close>

definition tick_login_done ::
  "externals \<Rightarrow> (bool \<times> string) outcome \<Rightarrow> bool \<Rightarrow> int \<Rightarrow> platform \<Rightarrow> platform \<times> task list" where
  "tick_login_done X r authenticated now p =
     (case r of
        Threw \<Rightarrow> synchronize_thrown p
      | Returned (success, portalVersion) \<Rightarrow>
          if success then
            (let p1 = p\<lparr>lastRunOn_adtKeepAlive := now, lastRunOn_adtSyncCheck := now\<rparr>;
                 contentHash = generateHash X portalVersion
             in if find (\<lambda>reportedHash. contentHash = reportedHash) (reportedHashes p1) = None
                then (emit (CallDetect PortalVersion portalVersion) p1, [TickDetect portalVersion])
                else tick_login_finished authenticated now p1)
          else
            (let p1 = p\<lparr>failedLogins := failedLogins p + 1\<rparr>;
                 attemptsLeft = maxLoginRetries (constants p1) - failedLogins p1;
                 p2 = (if attemptsLeft > 0 then emit (Log Error (LoginFailedTrying attemptsLeft)) p1
                       else emit (Log Error (LoginFailedSleeping (maxLoginRetries (constants p1)))) p1);
                 p3 = emit (StackTracer ''api-response'') p2
             in tick_login_finished authenticated now p3))"

text \<open>After \<open>await detectedNewPortalVersion(...)\<close>. The hash saved is the \<open>contentHash\<close>
  computed before the call, the hash of the same portal version.\<close>

definition tick_detect_done ::
  "externals \<Rightarrow> string \<Rightarrow> bool outcome \<Rightarrow> bool \<Rightarrow> int \<Rightarrow> platform \<Rightarrow> platform \<times> task list" where
  "tick_detect_done X portalVersion r authenticated now p =
     (case r of
        Threw \<Rightarrow> synchronize_thrown p
      | Returned detectedNew \<Rightarrow>
          tick_login_finished authenticated now
            (if detectedNew then save_hash (generateHash X portalVersion) p else p))"

text \<open>After \<open>await sleep(...)\<close>: the count is reset and the tick returns.\<close>

definition tick_sleep_done :: "platform \<Rightarrow> platform \<times> task list" where
  "tick_sleep_done p = (finish_sync (p\<lparr>failedLogins := 0\<rparr>), [])"

subsection \<open>The event loop\<close>

text \<open>Resuming a suspended task with the result of the call it awaits; \<open>None\<close> when the
  result is not one of that call.\<close>

fun resume ::
  "externals \<Rightarrow> task \<Rightarrow> resumption \<Rightarrow> bool \<Rightarrow> int \<Rightarrow> platform \<Rightarrow> (platform \<times> task list) option" where
  "resume X TickLogin (LoginDone r) a now p = Some (tick_login_done X r a now p)"
| "resume X (TickDetect pv) (DetectDone r) a now p = Some (tick_detect_done X pv r a now p)"
| "resume X TickSleep SleepDone a now p = Some (tick_sleep_done p)"
| "resume X KeepAliveAwait (KeepAliveDone r) a now p = Some (keepAlive_done r now p)"
| "resume X SyncCheckAwait (SyncCheckDone r) a now p = Some (syncCheck_done r now p)"
| "resume X FetchAll (GetAllDone r) a now p = Some (fetch_all_done X r p)"
| "resume X (FetchDetect ob obs) (DetectDone r) a now p = Some (fetch_detect_done X ob obs r p)"
| "resume X SyncCheckResumed Yielded a now p = Some (syncCheck_resumed now p)"
| "resume X t r a now p = None"

text \<open>The running plugin: the platform and the suspended tasks. A step of the event
  loop is the timer firing the tick, or a suspended task being resumed.\<close>

record system =
  plat :: platform
  pending :: "task list"

inductive step :: "externals \<Rightarrow> system \<Rightarrow> system \<Rightarrow> bool" for X :: externals where
  timer: "tick a now (plat s) = (p', ts) \<Longrightarrow> step X s \<lparr>plat = p', pending = pending s @ ts\<rparr>"
| resumed: "pending s = before @ t # after \<Longrightarrow> resume X t r a now (plat s) = Some (p', ts)
     \<Longrightarrow> step X s \<lparr>plat = p', pending = before @ ts @ after\<rparr>"

text \<open>The systems the plugin can be in: after start-up with a valid configuration, and
  after any number of steps.\<close>

inductive reachable :: "externals \<Rightarrow> system \<Rightarrow> bool" for X :: externals where
  started: "platformConfig_safeParse raw = Some c \<Longrightarrow> launch raw cached = Inr p
     \<Longrightarrow> reachable X \<lparr>plat = p, pending = []\<rparr>"
| stepped: "reachable X s \<Longrightarrow> step X s s' \<Longrightarrow> reachable X s'"

fun is_tick :: "task \<Rightarrow> bool" where
  "is_tick TickLogin = True"
| "is_tick (TickDetect pv) = True"
| "is_tick TickSleep = True"
| "is_tick t = False"

fun is_keepAlive :: "task \<Rightarrow> bool" where
  "is_keepAlive KeepAliveAwait = True"
| "is_keepAlive t = False"

fun is_syncCheck :: "task \<Rightarrow> bool" where
  "is_syncCheck SyncCheckAwait = True"
| "is_syncCheck FetchAll = True"
| "is_syncCheck (FetchDetect ob obs) = True"
| "is_syncCheck SyncCheckResumed = True"
| "is_syncCheck t = False"

text \<open>The hashes the detectors were called for, read off the trace.\<close>

fun detect_hash :: "externals \<Rightarrow> event \<Rightarrow> string list" where
  "detect_hash X (CallDetect c payload) = [generateHash X payload]"
| "detect_hash X e = []"

definition detected :: "externals \<Rightarrow> event list \<Rightarrow> string list" where
  "detected X t = concat (map (detect_hash X) t)"

definition refreshes :: "event list \<Rightarrow> nat" where
  "refreshes t = length (filter (\<lambda>e. e = CallGetAll) t)"

text \<open>The calls to the portal client, the timer and the detectors, read off the trace.\<close>

fun is_portal_call :: "event \<Rightarrow> bool" where
  "is_portal_call CallLogin = True"
| "is_portal_call (CallSleep ms) = True"
| "is_portal_call CallPerformKeepAlive = True"
| "is_portal_call CallPerformSyncCheck = True"
| "is_portal_call CallGetAll = True"
| "is_portal_call (CallDetect c payload) = True"
| "is_portal_call e = False"

definition portal_calls :: "event list \<Rightarrow> event list" where
  "portal_calls t = filter is_portal_call t"

text \<open>The fields that the registry methods and the reconciler neither assign nor pass
  on: everything but the accessories, the handlers and the trace.\<close>

definition scheduler_fields where
  "scheduler_fields p =
     (config p, constants p, api_instance p, isAdtKeepingAlive p, isAdtSyncChecking p,
      isLoggingIn p, isSyncing p, gatewayInfo p, panelInfo p, panelStatus p, sensorsInfo p,
      sensorsStatus p, syncCode p, failedLogins p, interval_synchronize p,
      lastRunOn_adtKeepAlive p, lastRunOn_adtSyncCheck p, reportedHashes p)"

text \<open>The number of suspended tasks of a kind, and a guard flag as a number.\<close>

definition in_flight :: "(task \<Rightarrow> bool) \<Rightarrow> task list \<Rightarrow> nat" where
  "in_flight kind ts = length (filter kind ts)"

definition flag :: "bool \<Rightarrow> nat" where
  "flag b = (if b then 1 else 0)"

text \<open>Each guard flag is set exactly while one task of its kind is suspended, and no
  more than one ever is.\<close>

definition guards_ok :: "system \<Rightarrow> bool" where
  "guards_ok s \<longleftrightarrow>
     in_flight is_tick (pending s) = flag (isSyncing (plat s))
     \<and> in_flight is_keepAlive (pending s) = flag (isAdtKeepingAlive (plat s))
     \<and> in_flight is_syncCheck (pending s) = flag (isAdtSyncChecking (plat s))
     \<and> api_instance (plat s)"

text \<open>What a segment does to the guards: \<open>gone\<close> is the task it resumed (none for the
  timer), and the result is the platform with the tasks it left suspended.\<close>

definition balanced :: "task list \<Rightarrow> platform \<Rightarrow> platform \<times> task list \<Rightarrow> bool" where
  "balanced gone p r \<longleftrightarrow>
     flag (isSyncing (fst r)) + in_flight is_tick gone
       = flag (isSyncing p) + in_flight is_tick (snd r)
     \<and> flag (isAdtKeepingAlive (fst r)) + in_flight is_keepAlive gone
       = flag (isAdtKeepingAlive p) + in_flight is_keepAlive (snd r)
     \<and> flag (isAdtSyncChecking (fst r)) + in_flight is_syncCheck gone
       = flag (isAdtSyncChecking p) + in_flight is_syncCheck (snd r)
     \<and> api_instance (fst r) = api_instance p
     \<and> constants (fst r) = constants p"

text \<open>The event loop as a function, for running a given schedule: the timer firing, or
  the suspended task at an index being resumed. \<open>None\<close> when the index or the result
  does not fit.\<close>

datatype occurrence = Timer bool int | Resume nat resumption bool int

fun occur :: "externals \<Rightarrow> occurrence \<Rightarrow> system \<Rightarrow> system option" where
  "occur X (Timer a now) s =
     (case tick a now (plat s) of (p', ts) \<Rightarrow> Some \<lparr>plat = p', pending = pending s @ ts\<rparr>)"
| "occur X (Resume i r a now) s =
     (if i < length (pending s) then
        (case resume X (pending s ! i) r a now (plat s) of
           None \<Rightarrow> None
         | Some (p', ts) \<Rightarrow>
             Some \<lparr>plat = p', pending = take i (pending s) @ ts @ drop (Suc i) (pending s)\<rparr>)
      else None)"

fun run :: "externals \<Rightarrow> occurrence list \<Rightarrow> system \<Rightarrow> system option" where
  "run X [] s = Some s"
| "run X (oc # ocs) s = (case occur X oc s of None \<Rightarrow> None | Some s' \<Rightarrow> run X ocs s')"

text \<open>The awaits a tick can still go through: login, then the detector, then the
  cooldown sleep.\<close>

fun tick_rank :: "task \<Rightarrow> nat" where
  "tick_rank TickLogin = 3"
| "tick_rank (TickDetect pv) = 2"
| "tick_rank TickSleep = 1"
| "tick_rank t = 0"


text \<open>From \<open>p\<close> to \<open>p'\<close> the reported hashes were only appended to, and if \<open>h\<close> was
  reported in \<open>p\<close> no detector was called for a payload with the hash \<open>h\<close>.\<close>

definition keeps_reported :: "externals \<Rightarrow> string \<Rightarrow> platform \<Rightarrow> platform \<Rightarrow> bool" where
  "keeps_reported X h p p' \<longleftrightarrow>
     prefix (reportedHashes p) (reportedHashes p')
     \<and> (h \<in> set (reportedHashes p) \<longrightarrow>
          count_list (detected X (trace p')) h = count_list (detected X (trace p)) h)"

text \<open>The failed-login count stays between 0 and the maximum of 3, and stands at the
  maximum only while the tick that reached it is in its cooldown sleep.\<close>

definition cooldown_ok :: "system \<Rightarrow> bool" where
  "cooldown_ok s \<longleftrightarrow>
     constants (plat s) = initial_constants
     \<and> 0 \<le> failedLogins (plat s) \<and> failedLogins (plat s) \<le> 3
     \<and> (failedLogins (plat s) = 3 \<longrightarrow> TickSleep \<in> set (pending s))"

section \<open>Example inputs\<close>

text \<open>Modelled from the spec: \<open>condenseSensorType\<close> of \<open>lib/utility.js\<close> is not among the
  sources. The spec's scenario has the portal type \<open>sensor,doorWindow\<close> normalised to
  \<open>doorWindow\<close>; the example normaliser drops the prefix \<open>sensor,\<close>. It is used in the
  examples only; the theorems hold for every normaliser.\<close>

definition ex_condenseSensorType :: "string \<Rightarrow> string" where
  "ex_condenseSensorType s = (if take 7 s = ''sensor,'' then drop 7 s else s)"

definition ex_externals :: externals where
  "ex_externals =
     \<lparr>uuid_generate = (\<lambda>s. ''uuid-of-'' @ s), condenseSensorType = ex_condenseSensorType,
      generateHash = (\<lambda>s. ''hash-of-'' @ s), getAccessoryCategory = (\<lambda>s. 0),
      stringify_gatewayInfo = (\<lambda>g. ''gateway''), stringify_panelInfo = (\<lambda>g. ''panel''),
      stringify_sensorsInfo = (\<lambda>ss. ''sensors:'' @ concat (map si_name ss))\<rparr>"

definition ex_front_door :: sensor_config where
  "ex_front_door = \<lparr>sc_name = None, adtName = ''Front Door'', adtType = ''doorWindow'', adtZone = 3\<rparr>"

definition ex_back_door :: sensor_config where
  "ex_back_door = \<lparr>sc_name = Some ''Back'', adtName = ''Back Door'', adtType = ''doorWindow'', adtZone = 4\<rparr>"

definition ex_back_door_9 :: sensor_config where
  "ex_back_door_9 = \<lparr>sc_name = Some ''Back'', adtName = ''Back Door'', adtType = ''doorWindow'', adtZone = 9\<rparr>"

definition ex_portal_sensors :: "sensor_info list" where
  "ex_portal_sensors =
     [\<lparr>si_deviceId = 2, si_deviceType = ''sensor,doorWindow'', si_name = ''Front Door'', si_zone = 3\<rparr>,
      \<lparr>si_deviceId = 7, si_deviceType = ''sensor,doorWindow'', si_name = ''Front Door'', si_zone = 3\<rparr>,
      \<lparr>si_deviceId = 5, si_deviceType = ''sensor,doorWindow'', si_name = ''Back Door'', si_zone = 9\<rparr>]"

definition ex_config :: "string \<Rightarrow> number \<Rightarrow> sensor_config list \<Rightarrow> config" where
  "ex_config md sp ss =
     \<lparr>cfg_platform = ''ADTPulse'', cfg_name = ''ADT Pulse'', cfg_subdomain = ''portal'',
      cfg_username = ''user'', cfg_password = ''secret'', cfg_fingerprint = ''token'',
      cfg_mode = md, cfg_speed = sp, cfg_sensors = ss\<rparr>"

text \<open>The raw configuration that parses to \<open>ex_config\<close>.\<close>

definition ex_raw :: "string \<Rightarrow> number \<Rightarrow> sensor_config list \<Rightarrow> jsval" where
  "ex_raw md sp ss =
     JObj [(''platform'', JStr ''ADTPulse''), (''name'', JStr ''ADT Pulse''),
           (''subdomain'', JStr ''portal''), (''username'', JStr ''user''),
           (''password'', JStr ''secret''), (''fingerprint'', JStr ''token''),
           (''mode'', JStr md), (''speed'', JNum sp),
           (''sensors'', JArr (map sensor_object ss))]"

definition ex_platform :: "sensor_config list \<Rightarrow> platform" where
  "ex_platform ss =
     initial_platform\<lparr>config := Some (ex_config ''normal'' 1 ss), api_instance := True,
       gatewayInfo := Some \<lparr>gw_manufacturer = Some ''ADT'', gw_model = Some ''G1'',
                             gw_serialNumber = None\<rparr>,
       panelInfo := Some \<lparr>pn_manufacturerProvider = Some ''ADT'', pn_typeModel = None\<rparr>,
       sensorsInfo := ex_portal_sensors\<rparr>"

definition ex_device :: "nat \<Rightarrow> device" where
  "ex_device n =
     \<lparr>dev_id = ''adt-device-'' @ string_of_nat n, dev_name = ''Sensor'', dev_type = ''doorWindow'',
      hap_category = ''SENSOR'', hap_uuid = ''uuid-of-adt-device-'' @ string_of_nat n,
      dev_manufacturer = Some ''ADT'', dev_model = None, dev_serial = None, dev_zone = Some 3\<rparr>"

definition ex_accessory :: "device \<Rightarrow> accessory" where
  "ex_accessory d =
     \<lparr>acc_displayName = dev_name d, acc_UUID = hap_uuid d, acc_category = 0, acc_context = d\<rparr>"

text \<open>The stable id of a portal device: \<open>`adt-device-${deviceId}`\<close>.\<close>

definition stable_id :: "nat \<Rightarrow> string" where
  "stable_id n = ''adt-device-'' @ string_of_nat n"

text \<open>The plugin just after start-up with the example configuration and no cached
  accessory, and after a schedule of the event loop.\<close>

definition ex_started :: system where
  "ex_started =
     \<lparr>plat = (case launch (ex_raw ''normal'' 1 [ex_front_door]) [] of Inl p \<Rightarrow> p | Inr p \<Rightarrow> p),
      pending = []\<rparr>"

definition ex_after :: "occurrence list \<Rightarrow> system" where
  "ex_after ocs = (case run ex_externals ocs ex_started of None \<Rightarrow> ex_started | Some s \<Rightarrow> s)"

text \<open>Schedules: a first tick while authenticated, which starts a sync check; and the
  same, followed by the check returning the code \<open>2-1-0\<close>, the refresh with every fetch
  failing, and a later tick that starts the next sync check.\<close>

definition ex_first_check :: "occurrence list" where
  "ex_first_check = [Timer True 5000]"

definition ex_second_check :: "occurrence list" where
  "ex_second_check =
     [Timer True 5000,
      Resume 0 (SyncCheckDone (Returned (True, ''2-1-0''))) True 5100,
      Resume 0 (GetAllDone (Returned \<lparr>ga_gatewayInfo = None, ga_panelInfo = None,
         ga_panelStatus = None, ga_sensorsInfo = None, ga_sensorsStatus = None\<rparr>)) True 5200,
      Resume 0 Yielded True 5300,
      Timer True 9000]"



text \<open>Schedules: a failed login and then a tick whose login is awaited; two failed
  logins and then a tick whose login is awaited; three failed logins.\<close>

definition ex_failure_then_login :: "occurrence list" where
  "ex_failure_then_login =
     [Timer False 1000, Resume 0 (LoginDone (Returned (False, ''v1''))) False 1500,
      Timer False 2000]"

definition ex_two_failures_then_login :: "occurrence list" where
  "ex_two_failures_then_login =
     [Timer False 1000, Resume 0 (LoginDone (Returned (False, ''v1''))) False 1500,
      Timer False 2000, Resume 0 (LoginDone (Returned (False, ''v1''))) False 2500,
      Timer False 3000]"

definition ex_three_failures :: "occurrence list" where
  "ex_three_failures =
     ex_two_failures_then_login @ [Resume 0 (LoginDone (Returned (False, ''v1''))) False 3500]"


section \<open>Basic facts\<close>

lemma trace_emit [simp]: "trace (emit e p) = trace p @ [e]"
  by (simp add: emit_def)

lemma emit_fields [simp]:
  "accessories (emit e p) = accessories p"
  "config (emit e p) = config p"
  "constants (emit e p) = constants p"
  "handlers (emit e p) = handlers p"
  "api_instance (emit e p) = api_instance p"
  "isAdtKeepingAlive (emit e p) = isAdtKeepingAlive p"
  "isAdtSyncChecking (emit e p) = isAdtSyncChecking p"
  "isLoggingIn (emit e p) = isLoggingIn p"
  "isSyncing (emit e p) = isSyncing p"
  "gatewayInfo (emit e p) = gatewayInfo p"
  "panelInfo (emit e p) = panelInfo p"
  "panelStatus (emit e p) = panelStatus p"
  "sensorsInfo (emit e p) = sensorsInfo p"
  "sensorsStatus (emit e p) = sensorsStatus p"
  "syncCode (emit e p) = syncCode p"
  "failedLogins (emit e p) = failedLogins p"
  "interval_synchronize (emit e p) = interval_synchronize p"
  "lastRunOn_adtKeepAlive (emit e p) = lastRunOn_adtKeepAlive p"
  "lastRunOn_adtSyncCheck (emit e p) = lastRunOn_adtSyncCheck p"
  "reportedHashes (emit e p) = reportedHashes p"
  by (simp_all add: emit_def)

lemma calls_Nil [simp]: "calls [] = []"
  by (simp add: calls_def)

lemma calls_Cons [simp]: "calls (e # t) = call_of e @ calls t"
  by (simp add: calls_def)

lemma calls_append [simp]: "calls (s @ t) = calls s @ calls t"
  by (simp add: calls_def)

lemma new_events_append: "trace p' = trace p @ t \<Longrightarrow> new_events p p' = t"
  by (simp add: new_events_def)

section \<open>The registry: lemmas\<close>

lemma findIndex_nonneg_iff: "findIndex P xs \<ge> 0 \<longleftrightarrow> (\<exists>x\<in>set xs. P x)"
  by (induction xs) (auto simp: Let_def)

lemma findIndex_find:
  "findIndex P xs \<ge> 0 \<Longrightarrow>
     nat (findIndex P xs) < length xs \<and> find P xs = Some (xs ! nat (findIndex P xs))"
proof (induction xs)
  case Nil
  then show ?case by simp
next
  case (Cons x xs)
  show ?case
  proof (cases "P x")
    case True
    then show ?thesis by simp
  next
    case False
    with Cons.prems have nn: "findIndex P xs \<ge> 0"
      by (simp add: Let_def split: if_splits)
    from Cons.IH [OF nn] False nn show ?thesis
      by (simp add: Let_def nat_add_distrib)
  qed
qed

lemma cached_iff: "findIndex (same_uuid d) (accessories p) \<ge> 0 \<longleftrightarrow> hap_uuid d \<in> cached_uuids p"
  by (auto simp: findIndex_nonneg_iff cached_uuids_def same_uuid_def acc_uuid_def)

lemma trace_ensure_handler: "calls (trace (ensure_handler i p)) = calls (trace p)"
  by (simp add: ensure_handler_def emit_def)

lemma accessories_ensure_handler [simp]: "accessories (ensure_handler i p) = accessories p"
  by (simp add: ensure_handler_def emit_def)

lemma trace_ensure_handler_prefix:
  "\<exists>t. trace (ensure_handler i p) = trace p @ t \<and> calls t = []"
  by (simp add: ensure_handler_def)

lemma add_fresh:
  assumes "hap_uuid d \<notin> cached_uuids p"
  shows "\<exists>t. trace (addAccessory X d p) = trace p @ t \<and> calls t = [Add (hap_uuid d)]
           \<and> map acc_uuid (accessories (addAccessory X d p)) = map acc_uuid (accessories p) @ [hap_uuid d]
           \<and> (\<exists>a. accessories (addAccessory X d p) = accessories p @ [a])"
proof -
  have neg: "\<not> findIndex (same_uuid d) (accessories p) \<ge> 0"
    using assms by (simp add: cached_iff)
  obtain t where t: "trace (ensure_handler (dev_id d) (emit (Log Info (Adding d)) p))
      = trace (emit (Log Info (Adding d)) p) @ t" "calls t = []"
    using trace_ensure_handler_prefix by blast
  show ?thesis using neg t
    by (simp add: addAccessory_def Let_def acc_uuid_def)
qed

lemma update_cached:
  assumes "hap_uuid d \<in> cached_uuids p"
  shows "\<exists>t. trace (updateAccessory d p) = trace p @ t \<and> calls t = [Update (hap_uuid d)]
           \<and> map acc_uuid (accessories (updateAccessory d p)) = map acc_uuid (accessories p)
           \<and> (\<exists>i v. accessories (updateAccessory d p) = (accessories p)[i := v] \<and> i < length (accessories p) \<and> acc_uuid (accessories p ! i) = hap_uuid d \<and> acc_uuid v = hap_uuid d)"
proof -
  let ?xs = "accessories p"
  let ?i = "findIndex (same_uuid d) ?xs"
  have nn: "?i \<ge> 0" using assms by (simp add: cached_iff)
  from findIndex_find [OF nn] have lt: "nat ?i < length ?xs"
    and fd: "find (same_uuid d) ?xs = Some (?xs ! nat ?i)" by simp_all
  have su: "same_uuid d (?xs ! nat ?i)"
    using fd by (auto simp: find_Some_iff)
  define v' where "v' = (?xs ! nat ?i)\<lparr>acc_context := d, acc_displayName := dev_name d\<rparr>"
  have uv: "acc_uuid v' = hap_uuid d" by (simp add: v'_def acc_uuid_def)
  have same: "map acc_uuid (?xs[nat ?i := v']) = map acc_uuid ?xs"
    using lt su uv by (simp add: map_update list_update_same_conv same_uuid_def acc_uuid_def)
  obtain t where t: "trace (ensure_handler (dev_id d) (emit (Log Debug (Updating (?xs ! nat ?i))) p))
      = trace (emit (Log Debug (Updating (?xs ! nat ?i))) p) @ t" "calls t = []"
    using trace_ensure_handler_prefix by blast
  have eq: "updateAccessory d p =
     emit (UpdatePlatformAccessories v')
       ((ensure_handler (dev_id d) (emit (Log Debug (Updating (?xs ! nat ?i))) p))
          \<lparr>accessories := ?xs[nat ?i := v']\<rparr>)"
    using nn fd by (simp add: updateAccessory_def findIndexWithValue_def Let_def v'_def)
  show ?thesis
    unfolding eq using t same uv lt su
    by (auto simp: same_uuid_def acc_uuid_def)
qed


lemma filter_update_irrelevant:
  "i < length xs \<Longrightarrow> \<not> P (xs ! i) \<Longrightarrow> \<not> P v \<Longrightarrow> filter P (xs[i := v]) = filter P xs"
proof (induction xs arbitrary: i)
  case Nil
  then show ?case by simp
next
  case (Cons x xs)
  then show ?case by (cases i) auto
qed


lemma poll_one_effect:
  "\<exists>t. trace (poll_one X d p) = trace p @ t
     \<and> calls t = [if hap_uuid d \<in> cached_uuids p then Update (hap_uuid d) else Add (hap_uuid d)]
     \<and> map acc_uuid (accessories (poll_one X d p))
         = map acc_uuid (accessories p) @ (if hap_uuid d \<in> cached_uuids p then [] else [hap_uuid d])
     \<and> (\<forall>U. hap_uuid d \<in> U \<longrightarrow>
           filter (\<lambda>a. acc_uuid a \<notin> U) (accessories (poll_one X d p))
             = filter (\<lambda>a. acc_uuid a \<notin> U) (accessories p))"
proof (cases "hap_uuid d \<in> cached_uuids p")
  case True
  from update_cached [OF True] obtain t i v where
    t: "trace (updateAccessory d p) = trace p @ t" "calls t = [Update (hap_uuid d)]"
       "map acc_uuid (accessories (updateAccessory d p)) = map acc_uuid (accessories p)"
    and u: "accessories (updateAccessory d p) = (accessories p)[i := v]" "i < length (accessories p)"
       "acc_uuid (accessories p ! i) = hap_uuid d" "acc_uuid v = hap_uuid d"
    by blast
  have "\<forall>U. hap_uuid d \<in> U \<longrightarrow>
           filter (\<lambda>a. acc_uuid a \<notin> U) (accessories (updateAccessory d p))
             = filter (\<lambda>a. acc_uuid a \<notin> U) (accessories p)"
    using u by (simp add: filter_update_irrelevant)
  with t True show ?thesis
    by (simp add: poll_one_def cached_iff)
next
  case False
  from add_fresh [OF False, of X] obtain t a where
    t: "trace (addAccessory X d p) = trace p @ t" "calls t = [Add (hap_uuid d)]"
       "map acc_uuid (accessories (addAccessory X d p)) = map acc_uuid (accessories p) @ [hap_uuid d]"
       "accessories (addAccessory X d p) = accessories p @ [a]"
    by blast
  from t(3,4) have "acc_uuid a = hap_uuid d" by simp
  with t False show ?thesis
    by (simp add: poll_one_def cached_iff)
qed

lemma pollAccessories_Cons: "pollAccessories X (d # ds) p = pollAccessories X ds (poll_one X d p)"
  by (simp add: poll_one_def Let_def)

lemma cached_uuids_poll_one:
  "cached_uuids (poll_one X d p) = insert (hap_uuid d) (cached_uuids p)"
proof -
  from poll_one_effect [of X d p] have
    "map acc_uuid (accessories (poll_one X d p))
         = map acc_uuid (accessories p) @ (if hap_uuid d \<in> cached_uuids p then [] else [hap_uuid d])"
    by blast
  then have "set (map acc_uuid (accessories (poll_one X d p)))
         = set (map acc_uuid (accessories p) @ (if hap_uuid d \<in> cached_uuids p then [] else [hap_uuid d]))"
    by (rule arg_cong)
  then show ?thesis
    unfolding cached_uuids_def by (auto split: if_splits)
qed

lemma pollAccessories_effect:
  "\<exists>t. trace (pollAccessories X ds p) = trace p @ t
     \<and> calls t = spec_poll_calls (cached_uuids p) ds
     \<and> (\<exists>added. map acc_uuid (accessories (pollAccessories X ds p))
                   = map acc_uuid (accessories p) @ added)
     \<and> cached_uuids (pollAccessories X ds p) = cached_uuids p \<union> hap_uuid ` set ds
     \<and> filter (\<lambda>a. acc_uuid a \<notin> hap_uuid ` set ds) (accessories (pollAccessories X ds p))
         = filter (\<lambda>a. acc_uuid a \<notin> hap_uuid ` set ds) (accessories p)"
proof (induction ds arbitrary: p)
  case Nil
  then show ?case by simp
next
  case (Cons d ds)
  let ?q = "poll_one X d p"
  from poll_one_effect [of X d p] obtain t1 where
    t1: "trace ?q = trace p @ t1"
        "calls t1 = [if hap_uuid d \<in> cached_uuids p then Update (hap_uuid d) else Add (hap_uuid d)]"
        "map acc_uuid (accessories ?q)
           = map acc_uuid (accessories p) @ (if hap_uuid d \<in> cached_uuids p then [] else [hap_uuid d])"
    and f1: "\<And>U. hap_uuid d \<in> U \<Longrightarrow>
           filter (\<lambda>a. acc_uuid a \<notin> U) (accessories ?q) = filter (\<lambda>a. acc_uuid a \<notin> U) (accessories p)"
    by blast
  from Cons.IH [of ?q] obtain t2 added where
    t2: "trace (pollAccessories X ds ?q) = trace ?q @ t2"
        "calls t2 = spec_poll_calls (cached_uuids ?q) ds"
        "map acc_uuid (accessories (pollAccessories X ds ?q)) = map acc_uuid (accessories ?q) @ added"
        "cached_uuids (pollAccessories X ds ?q) = cached_uuids ?q \<union> hap_uuid ` set ds"
    and f2: "filter (\<lambda>a. acc_uuid a \<notin> hap_uuid ` set ds) (accessories (pollAccessories X ds ?q))
         = filter (\<lambda>a. acc_uuid a \<notin> hap_uuid ` set ds) (accessories ?q)"
    by blast
  let ?U = "hap_uuid ` set (d # ds)"
  have f3: "filter (\<lambda>a. acc_uuid a \<notin> ?U) (accessories (pollAccessories X ds ?q))
         = filter (\<lambda>a. acc_uuid a \<notin> ?U) (accessories p)"
  proof -
    have "filter (\<lambda>a. acc_uuid a \<notin> ?U) (accessories (pollAccessories X ds ?q))
        = filter (\<lambda>a. acc_uuid a \<noteq> hap_uuid d)
            (filter (\<lambda>a. acc_uuid a \<notin> hap_uuid ` set ds) (accessories (pollAccessories X ds ?q)))"
      by (auto intro: filter_cong)
    also have "\<dots> = filter (\<lambda>a. acc_uuid a \<noteq> hap_uuid d)
            (filter (\<lambda>a. acc_uuid a \<notin> hap_uuid ` set ds) (accessories ?q))"
      by (simp only: f2)
    also have "\<dots> = filter (\<lambda>a. acc_uuid a \<notin> ?U) (accessories ?q)"
      by (auto intro: filter_cong)
    also have "\<dots> = filter (\<lambda>a. acc_uuid a \<notin> ?U) (accessories p)"
      by (rule f1) simp
    finally show ?thesis .
  qed
  have tr: "trace (pollAccessories X (d # ds) p) = trace p @ (t1 @ t2)"
    by (simp add: pollAccessories_Cons t1 t2 del: pollAccessories.simps)
  have cl: "calls (t1 @ t2) = spec_poll_calls (cached_uuids p) (d # ds)"
    by (simp add: t1 t2 cached_uuids_poll_one)
  have ad: "\<exists>added. map acc_uuid (accessories (pollAccessories X (d # ds) p))
                   = map acc_uuid (accessories p) @ added"
    by (simp add: pollAccessories_Cons t1 t2 del: pollAccessories.simps)
  have cu: "cached_uuids (pollAccessories X (d # ds) p) = cached_uuids p \<union> ?U"
    by (simp add: pollAccessories_Cons t2 cached_uuids_poll_one del: pollAccessories.simps)
  from tr cl ad cu f3 show ?case
    unfolding pollAccessories_Cons by blast
qed

lemma spec_poll_calls_cached:
  "hap_uuid ` set ds \<subseteq> C \<Longrightarrow> spec_poll_calls C ds = map (\<lambda>d. Update (hap_uuid d)) ds"
  by (induction ds arbitrary: C) (auto simp: insert_absorb)

lemma spec_poll_calls_no_remove: "Remove u \<notin> set (spec_poll_calls C ds)"
  by (induction ds arbitrary: C) auto

lemma spec_poll_calls_count_add:
  "count_list (spec_poll_calls C ds) (Add u) = (if u \<in> hap_uuid ` set ds \<and> u \<notin> C then 1 else 0)"
  by (induction ds arbitrary: C) auto

text \<open>
  Claim C7. \<open>pollAccessories\<close> makes, for each device of the list in turn, an update
  call when an accessory with the same uuid is cached at that moment and an add call
  otherwise (\<open>spec_poll_calls\<close>); it makes no remove call, keeps every cached accessory in
  place and leaves those whose uuid is not in the list as they were. Run twice with the
  same list, the first run adds each device that was not cached exactly once, and the
  second run makes one update per list element and no add.
\<close>

theorem pollAccessories_twice:
  "let p1 = pollAccessories X ds p; p2 = pollAccessories X ds p1 in
     trace p1 = trace p @ new_events p p1
   \<and> trace p2 = trace p1 @ new_events p1 p2
   \<and> calls (new_events p p1) = spec_poll_calls (cached_uuids p) ds
   \<and> calls (new_events p1 p2) = map (\<lambda>d. Update (hap_uuid d)) ds
   \<and> (\<forall>u. Remove u \<notin> set (calls (new_events p p1)) \<and> Remove u \<notin> set (calls (new_events p1 p2)))
   \<and> (\<exists>added. map acc_uuid (accessories p1) = map acc_uuid (accessories p) @ added)
   \<and> filter (\<lambda>a. acc_uuid a \<notin> hap_uuid ` set ds) (accessories p1)
       = filter (\<lambda>a. acc_uuid a \<notin> hap_uuid ` set ds) (accessories p)
   \<and> (\<forall>d\<in>set ds. count_list (calls (new_events p p1)) (Add (hap_uuid d))
         = (if hap_uuid d \<in> cached_uuids p then 0 else 1))
   \<and> (\<forall>u. Add u \<notin> set (calls (new_events p1 p2)))"
proof -
  define p1 where "p1 = pollAccessories X ds p"
  define p2 where "p2 = pollAccessories X ds p1"
  from pollAccessories_effect [of X ds p] obtain t1 where
    t1: "trace p1 = trace p @ t1" "calls t1 = spec_poll_calls (cached_uuids p) ds"
        "\<exists>added. map acc_uuid (accessories p1) = map acc_uuid (accessories p) @ added"
        "cached_uuids p1 = cached_uuids p \<union> hap_uuid ` set ds"
        "filter (\<lambda>a. acc_uuid a \<notin> hap_uuid ` set ds) (accessories p1)
           = filter (\<lambda>a. acc_uuid a \<notin> hap_uuid ` set ds) (accessories p)"
    unfolding p1_def by blast
  from pollAccessories_effect [of X ds p1] obtain t2 where
    t2: "trace p2 = trace p1 @ t2" "calls t2 = spec_poll_calls (cached_uuids p1) ds"
    unfolding p2_def by blast
  have n1: "new_events p p1 = t1" by (rule new_events_append) (rule t1)
  have n2: "new_events p1 p2 = t2" by (rule new_events_append) (rule t2)
  have c2: "calls t2 = map (\<lambda>d. Update (hap_uuid d)) ds"
    unfolding t2 by (rule spec_poll_calls_cached) (simp add: t1)
  have a2: "\<forall>u. Add u \<notin> set (calls t2)" unfolding c2 by auto
  have r2: "\<forall>u. Remove u \<notin> set (calls t2)" unfolding c2 by auto
  have "trace p1 = trace p @ new_events p p1
   \<and> trace p2 = trace p1 @ new_events p1 p2
   \<and> calls (new_events p p1) = spec_poll_calls (cached_uuids p) ds
   \<and> calls (new_events p1 p2) = map (\<lambda>d. Update (hap_uuid d)) ds
   \<and> (\<forall>u. Remove u \<notin> set (calls (new_events p p1)) \<and> Remove u \<notin> set (calls (new_events p1 p2)))
   \<and> (\<exists>added. map acc_uuid (accessories p1) = map acc_uuid (accessories p) @ added)
   \<and> filter (\<lambda>a. acc_uuid a \<notin> hap_uuid ` set ds) (accessories p1)
       = filter (\<lambda>a. acc_uuid a \<notin> hap_uuid ` set ds) (accessories p)
   \<and> (\<forall>d\<in>set ds. count_list (calls (new_events p p1)) (Add (hap_uuid d))
         = (if hap_uuid d \<in> cached_uuids p then 0 else 1))
   \<and> (\<forall>u. Add u \<notin> set (calls (new_events p1 p2)))"
    unfolding n1 n2 using t1 t2(1) c2 a2 r2
    by (simp add: spec_poll_calls_no_remove spec_poll_calls_count_add)
  then show ?thesis
    unfolding p1_def p2_def Let_def .
qed

section \<open>The reconciler: lemmas\<close>

lemma digit_char_inj:
  assumes "d < 10" "e < 10" "digit_char d = digit_char e"
  shows "d = e"
proof -
  have d: "d \<in> {0,1,2,3,4,5,6,7,8,9}" using assms(1) by auto
  have e: "e \<in> {0,1,2,3,4,5,6,7,8,9}" using assms(2) by auto
  show ?thesis using d e assms(3)
    by (auto simp: digit_char_def)
qed

lemma string_of_nat_small: "n < 10 \<Longrightarrow> string_of_nat n = [digit_char n]"
  by (subst string_of_nat.simps) simp

lemma string_of_nat_large:
  "\<not> n < 10 \<Longrightarrow> string_of_nat n = string_of_nat (n div 10) @ [digit_char (n mod 10)]"
  by (subst string_of_nat.simps) simp

lemma string_of_nat_nonempty: "string_of_nat n \<noteq> []"
  by (cases "n < 10") (simp_all add: string_of_nat_small string_of_nat_large)

lemma string_of_nat_inj: "string_of_nat n = string_of_nat m \<Longrightarrow> n = m"
proof (induction n arbitrary: m rule: string_of_nat.induct)
  case (1 n)
  show ?case
  proof (cases "n < 10")
    case n: True
    show ?thesis
    proof (cases "m < 10")
      case True
      with n "1.prems" show ?thesis
        by (simp add: string_of_nat_small digit_char_inj)
    next
      case False
      with n "1.prems" have "string_of_nat (m div 10) = []"
        by (simp add: string_of_nat_small string_of_nat_large)
      then show ?thesis using string_of_nat_nonempty by blast
    qed
  next
    case n: False
    show ?thesis
    proof (cases "m < 10")
      case True
      with n "1.prems" have "string_of_nat (n div 10) = []"
        by (simp add: string_of_nat_small string_of_nat_large)
      then show ?thesis using string_of_nat_nonempty by blast
    next
      case False
      with n "1.prems" have a: "string_of_nat (n div 10) = string_of_nat (m div 10)"
        and b: "digit_char (n mod 10) = digit_char (m mod 10)"
        by (simp_all add: string_of_nat_large)
      from "1.IH" [OF n a] have q: "n div 10 = m div 10" .
      from b have r: "n mod 10 = m mod 10" by (intro digit_char_inj) simp_all
      from q r show ?thesis by (metis div_mult_mod_eq)
    qed
  qed
qed

lemma string_of_nat_0: "string_of_nat 0 = ''0''"
  by (simp add: string_of_nat_small digit_char_def)

lemma string_of_nat_1: "string_of_nat 1 = ''1''"
  by (simp add: string_of_nat_small digit_char_def)

lemma find_hd_filter:
  "find P xs = (if \<exists>x\<in>set xs. P x then Some (hd (filter P xs)) else None)"
  by (induction xs) auto

lemma unify_sensors_spec:
  "unify_sensors X si cs devices p =
     (devices @ concat (map (spec_entry_devices X si) cs),
      p\<lparr>trace := trace p @ concat (map (spec_entry_warnings X si) cs)\<rparr>)"
proof (induction cs arbitrary: devices p)
  case Nil
  then show ?case by simp
next
  case (Cons c cs)
  show ?case
  proof (cases "\<exists>s\<in>set si. sensor_matches X c s")
    case True
    then have "find (sensor_matches X c) si = Some (hd (filter (sensor_matches X c) si))"
      by (simp add: find_hd_filter)
    with True show ?thesis
      by (simp add: Cons.IH spec_entry_devices_def spec_entry_warnings_def)
  next
    case False
    then have "find (sensor_matches X c) si = None"
      by (simp add: find_hd_filter)
    with False show ?thesis
      by (simp add: Cons.IH spec_entry_devices_def spec_entry_warnings_def emit_def)
  qed
qed

lemma unify_list_spec:
  assumes "config p = Some c"
  shows "unify_list X p =
     (fixed_devices X p @ concat (map (spec_entry_devices X (sensorsInfo p)) (cfg_sensors c)),
      p\<lparr>trace := trace p @ concat (map (spec_entry_warnings X (sensorsInfo p)) (cfg_sensors c))\<rparr>)"
  using assms
  by (simp add: unify_list_def unify_sensors_spec fixed_devices_def split: option.splits)

lemma first_match_hd:
  assumes "si = pre @ s # post" "\<forall>x\<in>set pre. \<not> P x" "P s"
  shows "hd (filter P si) = s"
  using assms by (simp add: filter_empty_conv [THEN iffD2])

lemma mset_concat_map_cong:
  assumes "mset xs = mset ys"
  shows "mset (concat (map f xs)) = mset (concat (map f ys))"
proof -
  have "\<And>zs. mset (concat (map f zs)) = (\<Sum>z\<in>#mset zs. mset (f z))"
    by (induct_tac zs) simp_all
  with assms show ?thesis by simp
qed

lemmas ex_defs = ex_platform_def initial_platform_def initial_constants_def ex_config_def
  ex_front_door_def ex_back_door_def ex_back_door_9_def ex_portal_sensors_def ex_externals_def
  ex_condenseSensorType_def ex_device_def ex_accessory_def ex_raw_def

text \<open>
  Claim C10. For every device whose hap uuid matches no accessory in the accessories
  cache, \<open>updateAccessory\<close> logs the warning and returns: the platform is the one it was
  given with that one line added to the trace, so the cache is unchanged and no
  \<open>updatePlatformAccessories\<close> call is made.
\<close>

theorem updateAccessory_missing:
  assumes "\<forall>a\<in>set (accessories p). hap_uuid (acc_context a) \<noteq> hap_uuid d"
  shows "updateAccessory d p = p\<lparr>trace := trace p @ [Log Warn (UpdateMissing d)]\<rparr>
     \<and> accessories (updateAccessory d p) = accessories p
     \<and> (\<forall>a. UpdatePlatformAccessories a \<notin> set (new_events p (updateAccessory d p)))"
proof -
  have "find (same_uuid d) (accessories p) = None"
    using assms by (auto simp: find_None_iff same_uuid_def)
  then have "updateAccessory d p = emit (Log Warn (UpdateMissing d)) p"
    by (simp add: updateAccessory_def findIndexWithValue_def)
  then show ?thesis by (simp add: emit_def new_events_def)
qed

text \<open>The hypothesis of C10 at a cache that holds another accessory.\<close>

theorem updateAccessory_missing_witness:
  "map acc_uuid (accessories (initial_platform\<lparr>accessories := [ex_accessory (ex_device 2)]\<rparr>))
       = [''uuid-of-adt-device-2'']
   \<and> hap_uuid (ex_device 3) = ''uuid-of-adt-device-3''
   \<and> accessories (updateAccessory (ex_device 3) (initial_platform\<lparr>accessories := [ex_accessory (ex_device 2)]\<rparr>))
       = [ex_accessory (ex_device 2)]
   \<and> trace (updateAccessory (ex_device 3) (initial_platform\<lparr>accessories := [ex_accessory (ex_device 2)]\<rparr>))
       = [Log Warn (UpdateMissing (ex_device 3))]"
proof -
  have h: "\<forall>a\<in>set (accessories (initial_platform\<lparr>accessories := [ex_accessory (ex_device 2)]\<rparr>)).
      hap_uuid (acc_context a) \<noteq> hap_uuid (ex_device 3)"
    by (simp add: ex_defs string_of_nat_small digit_char_def)
  have u: "map acc_uuid (accessories (initial_platform\<lparr>accessories := [ex_accessory (ex_device 2)]\<rparr>))
       = [''uuid-of-adt-device-2'']" "hap_uuid (ex_device 3) = ''uuid-of-adt-device-3''"
    by (simp_all add: acc_uuid_def ex_accessory_def ex_device_def string_of_nat_small digit_char_def)
  from updateAccessory_missing [OF h] u show ?thesis
    by (simp add: initial_platform_def)
qed

text \<open>C7 at a list of two devices, one of them cached before the first run.\<close>

theorem pollAccessories_twice_witness:
  "calls (new_events (initial_platform\<lparr>accessories := [ex_accessory (ex_device 3)]\<rparr>)
        (pollAccessories ex_externals [ex_device 2, ex_device 3]
           (initial_platform\<lparr>accessories := [ex_accessory (ex_device 3)]\<rparr>)))
     = [Add ''uuid-of-adt-device-2'', Update ''uuid-of-adt-device-3'']
   \<and> calls (new_events
        (pollAccessories ex_externals [ex_device 2, ex_device 3]
           (initial_platform\<lparr>accessories := [ex_accessory (ex_device 3)]\<rparr>))
        (pollAccessories ex_externals [ex_device 2, ex_device 3]
           (pollAccessories ex_externals [ex_device 2, ex_device 3]
              (initial_platform\<lparr>accessories := [ex_accessory (ex_device 3)]\<rparr>))))
     = [Update ''uuid-of-adt-device-2'', Update ''uuid-of-adt-device-3'']"
  using pollAccessories_twice [of ex_externals "[ex_device 2, ex_device 3]"
      "initial_platform\<lparr>accessories := [ex_accessory (ex_device 3)]\<rparr>"]
  by (simp add: Let_def cached_uuids_def acc_uuid_def ex_defs string_of_nat_small digit_char_def)

text \<open>
  Claim C5. With a configuration loaded, the canonical list of \<open>unifyDevices\<close> is the
  gateway and panel records followed by the contribution of each configured sensor entry
  in order: one record, built from the first portal sensor that equals the entry on name,
  condensed type and zone, when there is such a sensor, and none otherwise. An entry
  without a match adds one warning to the log and nothing else, and the list is still
  handed to \<open>pollAccessories\<close>. The id of a matched entry is \<open>adt-device-\<close> followed by
  the portal's device identifier, so reordering the configured entries leaves the
  records the same up to their order.
\<close>

theorem unifyDevices_sensor_entries:
  assumes "config p = Some c"
  shows "fst (unify_list X p)
       = fixed_devices X p @ concat (map (spec_entry_devices X (sensorsInfo p)) (cfg_sensors c))
   \<and> snd (unify_list X p)
       = p\<lparr>trace := trace p @ concat (map (spec_entry_warnings X (sensorsInfo p)) (cfg_sensors c))\<rparr>
   \<and> unifyDevices X p = pollAccessories X (fst (unify_list X p)) (snd (unify_list X p))
   \<and> (\<forall>e\<in>set (cfg_sensors c).
        (\<forall>pre s post. sensorsInfo p = pre @ s # post \<and> (\<forall>x\<in>set pre. \<not> sensor_matches X e x)
              \<and> adtName e = si_name s \<and> adtType e = condenseSensorType X (si_deviceType s)
              \<and> adtZone e = si_zone s
           \<longrightarrow> spec_entry_devices X (sensorsInfo p) e = [sensor_device X e s]
             \<and> spec_entry_warnings X (sensorsInfo p) e = []
             \<and> dev_id (sensor_device X e s) = ''adt-device-'' @ string_of_nat (si_deviceId s))
      \<and> ((\<forall>s\<in>set (sensorsInfo p). \<not> (adtName e = si_name s
              \<and> adtType e = condenseSensorType X (si_deviceType s) \<and> adtZone e = si_zone s))
           \<longrightarrow> spec_entry_devices X (sensorsInfo p) e = []
             \<and> spec_entry_warnings X (sensorsInfo p) e
                 = [Log Warn (NotOnPortal (adtName e) (adtZone e))]))
   \<and> (\<forall>cs'. mset cs' = mset (cfg_sensors c) \<longrightarrow>
         mset (fst (unify_list X (p\<lparr>config := Some (c\<lparr>cfg_sensors := cs'\<rparr>)\<rparr>)))
           = mset (fst (unify_list X p)))"
proof -
  note ul = unify_list_spec [OF assms, of X]
  have a: "fst (unify_list X p)
       = fixed_devices X p @ concat (map (spec_entry_devices X (sensorsInfo p)) (cfg_sensors c))"
    by (simp add: ul)
  have b: "snd (unify_list X p)
       = p\<lparr>trace := trace p @ concat (map (spec_entry_warnings X (sensorsInfo p)) (cfg_sensors c))\<rparr>"
    by (simp add: ul)
  have c: "unifyDevices X p = pollAccessories X (fst (unify_list X p)) (snd (unify_list X p))"
    by (simp add: unifyDevices_def split: prod.splits)
  have d1: "spec_entry_devices X (sensorsInfo p) e = [sensor_device X e s]
             \<and> spec_entry_warnings X (sensorsInfo p) e = []
             \<and> dev_id (sensor_device X e s) = ''adt-device-'' @ string_of_nat (si_deviceId s)"
    if "sensorsInfo p = pre @ s # post" "\<forall>x\<in>set pre. \<not> sensor_matches X e x"
       "sensor_matches X e s" for e pre s post
  proof -
    from that have "hd (filter (sensor_matches X e) (sensorsInfo p)) = s"
      by (rule first_match_hd)
    moreover from that have "\<exists>x\<in>set (sensorsInfo p). sensor_matches X e x" by auto
    ultimately show ?thesis
      by (simp add: spec_entry_devices_def spec_entry_warnings_def sensor_device_def Let_def)
  qed
  have d2: "spec_entry_devices X (sensorsInfo p) e = []
             \<and> spec_entry_warnings X (sensorsInfo p) e
                 = [Log Warn (NotOnPortal (adtName e) (adtZone e))]"
    if "\<forall>s\<in>set (sensorsInfo p). \<not> sensor_matches X e s" for e
    using that by (simp add: spec_entry_devices_def spec_entry_warnings_def)
  have e: "mset (fst (unify_list X (p\<lparr>config := Some (c\<lparr>cfg_sensors := cs'\<rparr>)\<rparr>)))
           = mset (fst (unify_list X p))" if "mset cs' = mset (cfg_sensors c)" for cs'
  proof -
    have "fst (unify_list X (p\<lparr>config := Some (c\<lparr>cfg_sensors := cs'\<rparr>)\<rparr>))
        = fixed_devices X p @ concat (map (spec_entry_devices X (sensorsInfo p)) cs')"
      by (simp add: unify_list_spec [of _ "c\<lparr>cfg_sensors := cs'\<rparr>"] fixed_devices_def)
    with a mset_concat_map_cong [OF that, of "spec_entry_devices X (sensorsInfo p)"]
    show ?thesis by simp
  qed
  from a b c d1 d2 e show ?thesis
    unfolding sensor_matches_def [symmetric] by blast
qed

text \<open>C5 on the scenario of the specification: the front door matches (the first of
  two identical portal entries is taken), the back door configured with zone 4 does not.\<close>

theorem unifyDevices_sensor_entries_witness:
  "config (ex_platform [ex_front_door, ex_back_door]) = Some (ex_config ''normal'' 1 [ex_front_door, ex_back_door])
   \<and> map dev_id (fst (unify_list ex_externals (ex_platform [ex_front_door, ex_back_door])))
       = [''adt-device-0'', ''adt-device-1'', ''adt-device-2'']
   \<and> new_events (ex_platform [ex_front_door, ex_back_door])
        (snd (unify_list ex_externals (ex_platform [ex_front_door, ex_back_door])))
       = [Log Warn (NotOnPortal ''Back Door'' 4)]"
proof -
  let ?p = "ex_platform [ex_front_door, ex_back_door]"
  have h: "config ?p = Some (ex_config ''normal'' 1 [ex_front_door, ex_back_door])"
    by (simp add: ex_platform_def)
  from unifyDevices_sensor_entries [OF h, of ex_externals]
  have a: "fst (unify_list ex_externals ?p)
       = fixed_devices ex_externals ?p
         @ concat (map (spec_entry_devices ex_externals (sensorsInfo ?p))
             (cfg_sensors (ex_config ''normal'' 1 [ex_front_door, ex_back_door])))"
    and b: "snd (unify_list ex_externals ?p)
       = ?p\<lparr>trace := trace ?p @ concat (map (spec_entry_warnings ex_externals (sensorsInfo ?p))
             (cfg_sensors (ex_config ''normal'' 1 [ex_front_door, ex_back_door])))\<rparr>"
    by blast+
  have a': "map dev_id (fst (unify_list ex_externals ?p))
       = [''adt-device-0'', ''adt-device-1'', ''adt-device-2'']"
    unfolding a
    by (simp add: fixed_devices_def gateway_device_def panel_device_def
        spec_entry_devices_def sensor_matches_def sensor_device_def Let_def
        ex_defs string_of_nat_small digit_char_def)
  have b': "new_events ?p (snd (unify_list ex_externals ?p)) = [Log Warn (NotOnPortal ''Back Door'' 4)]"
    unfolding b
    by (simp add: new_events_def spec_entry_warnings_def sensor_matches_def ex_defs)
  from h a' b' show ?thesis by blast
qed



lemma stable_id_inj: "inj stable_id"
  by (rule injI) (simp add: stable_id_def string_of_nat_inj)

lemma entry_ids:
  "map dev_id (concat (map (spec_entry_devices X si) cs)) = map stable_id (matched_ids X si cs)"
  by (induction cs)
     (simp_all add: matched_ids_def spec_entry_devices_def find_hd_filter sensor_device_def
        Let_def stable_id_def)

lemma fixed_ids:
  "map dev_id (fixed_devices X p)
     = map stable_id ((case gatewayInfo p of None \<Rightarrow> [] | Some g \<Rightarrow> [0])
                      @ (case panelInfo p of None \<Rightarrow> [] | Some pn \<Rightarrow> [1]))"
  by (simp add: fixed_devices_def gateway_device_def panel_device_def stable_id_def
      string_of_nat_0 string_of_nat_1 [unfolded One_nat_def] split: option.splits)

text \<open>
  Claim C6, as amended. The canonical list has no two records with the same stable id
  exactly when the configured entries that have a match are matched to pairwise different
  portal device identifiers, none of them 0 when gateway information is known and none
  of them 1 when panel information is known.
\<close>

theorem unifyDevices_ids_distinct_iff:
  assumes "config p = Some c"
  shows "distinct (map dev_id (fst (unify_list X p))) \<longleftrightarrow>
     distinct (matched_ids X (sensorsInfo p) (cfg_sensors c))
     \<and> (gatewayInfo p \<noteq> None \<longrightarrow> 0 \<notin> set (matched_ids X (sensorsInfo p) (cfg_sensors c)))
     \<and> (panelInfo p \<noteq> None \<longrightarrow> 1 \<notin> set (matched_ids X (sensorsInfo p) (cfg_sensors c)))"
proof -
  let ?m = "matched_ids X (sensorsInfo p) (cfg_sensors c)"
  let ?f = "(case gatewayInfo p of None \<Rightarrow> [] | Some g \<Rightarrow> [0::nat])
              @ (case panelInfo p of None \<Rightarrow> [] | Some pn \<Rightarrow> [1])"
  have "map dev_id (fst (unify_list X p)) = map stable_id (?f @ ?m)"
    by (simp add: unify_list_spec [OF assms] entry_ids fixed_ids)
  then have "distinct (map dev_id (fst (unify_list X p))) \<longleftrightarrow> distinct (?f @ ?m)"
    by (simp only: distinct_map) (meson inj_on_subset stable_id_inj subset_UNIV)
  also have "\<dots> \<longleftrightarrow> distinct ?m \<and> (gatewayInfo p \<noteq> None \<longrightarrow> 0 \<notin> set ?m)
       \<and> (panelInfo p \<noteq> None \<longrightarrow> 1 \<notin> set ?m)"
    by (auto split: option.splits)
  finally show ?thesis .
qed

text \<open>The amended C6 at a configuration of two entries matched to the devices 2 and 5.\<close>

theorem unifyDevices_ids_distinct_iff_witness:
  "config (ex_platform [ex_front_door, ex_back_door_9])
      = Some (ex_config ''normal'' 1 [ex_front_door, ex_back_door_9])
   \<and> matched_ids ex_externals ex_portal_sensors [ex_front_door, ex_back_door_9] = [2, 5]
   \<and> distinct (map dev_id (fst (unify_list ex_externals (ex_platform [ex_front_door, ex_back_door_9]))))"
proof -
  let ?p = "ex_platform [ex_front_door, ex_back_door_9]"
  have h: "config ?p = Some (ex_config ''normal'' 1 [ex_front_door, ex_back_door_9])"
    by (simp add: ex_platform_def)
  have m: "matched_ids ex_externals ex_portal_sensors [ex_front_door, ex_back_door_9] = [2, 5]"
    by (simp add: matched_ids_def sensor_matches_def ex_defs)
  have s: "sensorsInfo ?p = ex_portal_sensors"
    "cfg_sensors (ex_config ''normal'' 1 [ex_front_door, ex_back_door_9]) = [ex_front_door, ex_back_door_9]"
    by (simp_all add: ex_platform_def ex_config_def)
  from unifyDevices_ids_distinct_iff [OF h, of ex_externals] h m show ?thesis
    unfolding s by simp
qed

text \<open>Claim C6 as stated fails: a valid configuration that lists the same sensor twice
  gives two records with the id \<open>adt-device-2\<close>.\<close>

theorem unifyDevices_duplicate_ids_counterexample:
  "platformConfig_safeParse (ex_raw ''normal'' 1 [ex_front_door, ex_front_door])
      = Some (ex_config ''normal'' 1 [ex_front_door, ex_front_door])
   \<and> config (ex_platform [ex_front_door, ex_front_door])
      = Some (ex_config ''normal'' 1 [ex_front_door, ex_front_door])
   \<and> map dev_id (fst (unify_list ex_externals (ex_platform [ex_front_door, ex_front_door])))
      = [''adt-device-0'', ''adt-device-1'', ''adt-device-2'', ''adt-device-2'']
   \<and> \<not> distinct (map dev_id (fst (unify_list ex_externals (ex_platform [ex_front_door, ex_front_door]))))"
proof -
  have a: "platformConfig_safeParse (ex_raw ''normal'' 1 [ex_front_door, ex_front_door])
      = Some (ex_config ''normal'' 1 [ex_front_door, ex_front_door])"
    by (simp add: platformConfig_safeParse_def ex_raw_def ex_config_def js_prop_def z_literals_def
        z_string_def z_number_literals_def z_number_def z_optional_def sensors_schema_def
        sensor_schema_def sensor_object_def ex_front_door_def)
  have b: "map dev_id (fst (unify_list ex_externals (ex_platform [ex_front_door, ex_front_door])))
      = [''adt-device-0'', ''adt-device-1'', ''adt-device-2'', ''adt-device-2'']"
    by (simp add: unify_list_def gateway_device_def panel_device_def sensor_matches_def
        sensor_device_def Let_def ex_defs string_of_nat_small digit_char_def)
  from a b show ?thesis by (simp add: ex_platform_def)
qed

section \<open>Start-up: the schema, reset mode and the interval constants\<close>

lemma config_prop_pause: "config_prop c ''pause'' = JUndefined"
  by (simp add: config_prop_def js_prop_def)

lemma config_prop_reset: "config_prop c ''reset'' = JUndefined"
  by (simp add: config_prop_def js_prop_def)

lemma config_prop_mode: "config_prop c ''mode'' = JStr (cfg_mode c)"
  by (simp add: config_prop_def js_prop_def)

lemma didFinishLaunching_synchronizes:
  "didFinishLaunching c p =
     Inr (synchronize (emit (Log Info TransparencyNotice) (emit (Log Info SystemInformation)
            (emit NewADTPulse (p\<lparr>config := Some c, api_instance := True\<rparr>)))))"
  by (simp add: didFinishLaunching_def config_prop_pause config_prop_reset Let_def)

lemma constants_configureAccessory [simp]: "constants (configureAccessory a p) = constants p"
  by (simp add: configureAccessory_def Let_def)

lemma constants_fold_configure [simp]:
  "constants (fold configureAccessory cached p) = constants p"
  by (induction cached arbitrary: p) simp_all

lemma accessories_fold_configure:
  "accessories (fold configureAccessory cached p) = accessories p @ cached"
  by (induction cached arbitrary: p) (simp_all add: configureAccessory_def Let_def)

lemma calls_fold_configure:
  "calls (trace (fold configureAccessory cached p)) = calls (trace p)"
  by (induction cached arbitrary: p) (simp_all add: configureAccessory_def Let_def)

text \<open>For every configuration the schema accepts neither \<open>pause\<close> nor \<open>reset\<close> is
  \<open>true\<close>, and the listener always ends in \<open>synchronize\<close>.\<close>

lemma launch_valid:
  assumes "platformConfig_safeParse raw = Some c"
  shows "launch raw cached =
     Inr (synchronize (emit (Log Info TransparencyNotice) (emit (Log Info SystemInformation)
            (emit NewADTPulse ((fold configureAccessory cached initial_platform)
               \<lparr>config := Some c, api_instance := True\<rparr>)))))"
  using assms by (simp add: launch_def constructor_def didFinishLaunching_synchronizes)

text \<open>
  Claim C9, as amended. For every configuration the schema accepts, whatever its speed
  multiplier, start-up registers the tick with the fixed interval of 1000 ms and the
  platform keeps the fixed keep-alive interval of 538000 ms, sync-check interval of
  3000 ms and cooldown of 1800000 ms: the constructor sets them and nothing reads
  \<open>speed\<close>.
\<close>

theorem launch_constants_fixed:
  assumes "platformConfig_safeParse raw = Some c"
  shows "\<exists>p. launch raw cached = Inr p
     \<and> synchronize_ms (constants p) = 1000 \<and> adtKeepAlive (constants p) = 538000
     \<and> adtSyncCheck (constants p) = 3000 \<and> suspendSyncing (constants p) = 1800000
     \<and> interval_synchronize p = Some 1000
     \<and> filter (\<lambda>e. case e of SetInterval n \<Rightarrow> True | _ \<Rightarrow> False) (trace p) = [SetInterval 1000]"
proof -
  have t: "filter (\<lambda>e. case e of SetInterval n \<Rightarrow> True | _ \<Rightarrow> False)
      (trace (fold configureAccessory cached p)) 
      = filter (\<lambda>e. case e of SetInterval n \<Rightarrow> True | _ \<Rightarrow> False) (trace p)" for p
    by (induction cached arbitrary: p) (simp_all add: configureAccessory_def Let_def)
  show ?thesis
    unfolding launch_valid [OF assms]
    by (simp add: synchronize_def t) (simp add: initial_platform_def initial_constants_def)
qed

lemma ex_raw_parses:
  "platformConfig_safeParse (ex_raw ''reset'' (1/2) [ex_front_door])
      = Some (ex_config ''reset'' (1/2) [ex_front_door])"
   "platformConfig_safeParse (ex_raw ''normal'' 1 [ex_front_door])
      = Some (ex_config ''normal'' 1 [ex_front_door])"
  by (simp_all add: platformConfig_safeParse_def ex_raw_def ex_config_def js_prop_def z_literals_def
        z_string_def z_number_literals_def z_number_def z_optional_def sensors_schema_def
        sensor_schema_def sensor_object_def ex_front_door_def)


text \<open>The amended C9 at a valid configuration with the multiplier 0.5.\<close>

theorem launch_constants_fixed_witness:
  "platformConfig_safeParse (ex_raw ''reset'' (1/2) [ex_front_door])
      = Some (ex_config ''reset'' (1/2) [ex_front_door])
   \<and> (\<exists>p. launch (ex_raw ''reset'' (1/2) [ex_front_door]) [] = Inr p
     \<and> synchronize_ms (constants p) = 1000 \<and> adtKeepAlive (constants p) = 538000
     \<and> adtSyncCheck (constants p) = 3000 \<and> suspendSyncing (constants p) = 1800000)"
  using launch_constants_fixed [OF ex_raw_parses(1), of "[]"] ex_raw_parses(1) by blast

text \<open>Claim C9 as stated fails: two valid configurations with the multipliers 1 and
  0.5 start the scheduler with the same four interval constants.\<close>

theorem speed_not_applied_counterexample:
  "platformConfig_safeParse (ex_raw ''normal'' 1 [ex_front_door])
      = Some (ex_config ''normal'' 1 [ex_front_door])
   \<and> platformConfig_safeParse (ex_raw ''reset'' (1/2) [ex_front_door])
      = Some (ex_config ''reset'' (1/2) [ex_front_door])
   \<and> cfg_speed (ex_config ''normal'' 1 [ex_front_door]) = 1
   \<and> cfg_speed (ex_config ''reset'' (1/2) [ex_front_door]) = 1/2
   \<and> map_sum constants constants (launch (ex_raw ''normal'' 1 [ex_front_door]) [])
       = Inr \<lparr>adtKeepAlive = 538000, adtSyncCheck = 3000, suspendSyncing = 1800000,
              synchronize_ms = 1000, maxLoginRetries = 3\<rparr>
   \<and> map_sum constants constants (launch (ex_raw ''reset'' (1/2) [ex_front_door]) [])
       = Inr \<lparr>adtKeepAlive = 538000, adtSyncCheck = 3000, suspendSyncing = 1800000,
              synchronize_ms = 1000, maxLoginRetries = 3\<rparr>"
  by (simp add: ex_raw_parses launch_valid synchronize_def emit_def initial_platform_def
      initial_constants_def ex_config_def)

lemma launch_valid_effect:
  assumes "platformConfig_safeParse raw = Some c"
  shows "\<exists>p. launch raw cached = Inr p \<and> accessories p = cached \<and> calls (trace p) = []
     \<and> interval_synchronize p = Some 1000 \<and> config p = Some c"
  unfolding launch_valid [OF assms]
  by (simp add: synchronize_def accessories_fold_configure calls_fold_configure)
     (simp add: initial_platform_def initial_constants_def)

text \<open>
  Claim C8 at a valid configuration whose \<open>mode\<close> is \<open>reset\<close>, with two accessories
  restored from the cache. The listener tests \<open>this.#config.reset === true\<close>, a key the
  schema does not have, so the branch that removes the accessories is not taken: both
  accessories stay cached, no registry call is made, and \<open>synchronize\<close> registers the tick.
\<close>

theorem launch_reset_mode_keeps_accessories:
  "platformConfig_safeParse (ex_raw ''reset'' 1 [ex_front_door])
      = Some (ex_config ''reset'' 1 [ex_front_door])
   \<and> cfg_mode (ex_config ''reset'' 1 [ex_front_door]) = ''reset''
   \<and> map_sum (\<lambda>p. (map acc_uuid (accessories p), calls (trace p), interval_synchronize p))
              (\<lambda>p. (map acc_uuid (accessories p), calls (trace p), interval_synchronize p))
        (launch (ex_raw ''reset'' 1 [ex_front_door])
           [ex_accessory (ex_device 2), ex_accessory (ex_device 5)])
       = Inr ([''uuid-of-adt-device-2'', ''uuid-of-adt-device-5''], [], Some 1000)"
proof -
  have a: "platformConfig_safeParse (ex_raw ''reset'' 1 [ex_front_door])
      = Some (ex_config ''reset'' 1 [ex_front_door])"
    by (simp add: platformConfig_safeParse_def ex_raw_def ex_config_def js_prop_def z_literals_def
        z_string_def z_number_literals_def z_number_def z_optional_def sensors_schema_def
        sensor_schema_def sensor_object_def ex_front_door_def)
  from launch_valid_effect [OF a, of "[ex_accessory (ex_device 2), ex_accessory (ex_device 5)]"]
  obtain p where p: "launch (ex_raw ''reset'' 1 [ex_front_door])
           [ex_accessory (ex_device 2), ex_accessory (ex_device 5)] = Inr p"
     "accessories p = [ex_accessory (ex_device 2), ex_accessory (ex_device 5)]"
     "calls (trace p) = []" "interval_synchronize p = Some 1000"
    by blast
  show ?thesis
    by (simp add: a p) 
       (simp add: ex_config_def acc_uuid_def ex_accessory_def ex_device_def string_of_nat_small digit_char_def)
qed

section \<open>The scheduler: what each segment does to the guards\<close>

subsection \<open>What the registry methods leave alone\<close>

lemma scheduler_fields_emit [simp]: "scheduler_fields (emit e p) = scheduler_fields p"
  by (simp add: scheduler_fields_def)

lemma scheduler_fields_accessories_update [simp]:
  "scheduler_fields (p\<lparr>accessories := xs\<rparr>) = scheduler_fields p"
  by (simp add: scheduler_fields_def)

lemma scheduler_fields_handlers_update [simp]:
  "scheduler_fields (p\<lparr>handlers := hs\<rparr>) = scheduler_fields p"
  by (simp add: scheduler_fields_def)

lemma scheduler_fields_ensure_handler [simp]:
  "scheduler_fields (ensure_handler i p) = scheduler_fields p"
  by (simp add: ensure_handler_def)

lemma scheduler_fields_addAccessory [simp]:
  "scheduler_fields (addAccessory X d p) = scheduler_fields p"
  by (simp add: addAccessory_def Let_def)

lemma scheduler_fields_updateAccessory [simp]:
  "scheduler_fields (updateAccessory d p) = scheduler_fields p"
  by (simp add: updateAccessory_def Let_def split: prod.splits option.splits)

lemma scheduler_fields_pollAccessories [simp]:
  "scheduler_fields (pollAccessories X ds p) = scheduler_fields p"
  by (induction ds arbitrary: p) (simp_all add: Let_def)

lemma scheduler_fields_unify_sensors [simp]:
  "scheduler_fields (snd (unify_sensors X si cs ds p)) = scheduler_fields p"
  by (induction cs arbitrary: ds p) (simp_all split: option.splits)

lemma scheduler_fields_unifyDevices [simp]:
  "scheduler_fields (unifyDevices X p) = scheduler_fields p"
proof -
  have "scheduler_fields (snd (unify_list X p)) = scheduler_fields p"
    by (simp add: unify_list_def Let_def split: option.splits)
  then show ?thesis
    by (cases "unify_list X p") (simp add: unifyDevices_def)
qed

lemma portal_calls_append [simp]: "portal_calls (s @ t) = portal_calls s @ portal_calls t"
  by (simp add: portal_calls_def)

lemma portal_calls_Nil [simp]: "portal_calls [] = []"
  by (simp add: portal_calls_def)

lemma portal_calls_Cons [simp]:
  "portal_calls (e # t) = (if is_portal_call e then [e] else []) @ portal_calls t"
  by (simp add: portal_calls_def)

lemma portal_calls_ensure_handler [simp]:
  "portal_calls (trace (ensure_handler i p)) = portal_calls (trace p)"
  by (simp add: ensure_handler_def)

lemma portal_calls_addAccessory [simp]:
  "portal_calls (trace (addAccessory X d p)) = portal_calls (trace p)"
  by (simp add: addAccessory_def Let_def)

lemma portal_calls_updateAccessory [simp]:
  "portal_calls (trace (updateAccessory d p)) = portal_calls (trace p)"
  by (simp add: updateAccessory_def Let_def split: prod.splits option.splits)

lemma portal_calls_pollAccessories [simp]:
  "portal_calls (trace (pollAccessories X ds p)) = portal_calls (trace p)"
  by (induction ds arbitrary: p) (simp_all add: Let_def)

lemma portal_calls_unify_sensors [simp]:
  "portal_calls (trace (snd (unify_sensors X si cs ds p))) = portal_calls (trace p)"
  by (induction cs arbitrary: ds p) (simp_all split: option.splits)

lemma portal_calls_unifyDevices [simp]:
  "portal_calls (trace (unifyDevices X p)) = portal_calls (trace p)"
proof -
  have "portal_calls (trace (snd (unify_list X p))) = portal_calls (trace p)"
    by (simp add: unify_list_def Let_def split: option.splits)
  then show ?thesis
    by (cases "unify_list X p") (simp add: unifyDevices_def)
qed


lemma scheduler_fieldsD:
  assumes "scheduler_fields p' = scheduler_fields p"
  shows "config p' = config p" "constants p' = constants p" "api_instance p' = api_instance p"
    "isAdtKeepingAlive p' = isAdtKeepingAlive p" "isAdtSyncChecking p' = isAdtSyncChecking p"
    "isLoggingIn p' = isLoggingIn p" "isSyncing p' = isSyncing p"
    "gatewayInfo p' = gatewayInfo p" "panelInfo p' = panelInfo p" "panelStatus p' = panelStatus p"
    "sensorsInfo p' = sensorsInfo p" "sensorsStatus p' = sensorsStatus p" "syncCode p' = syncCode p"
    "failedLogins p' = failedLogins p" "interval_synchronize p' = interval_synchronize p"
    "lastRunOn_adtKeepAlive p' = lastRunOn_adtKeepAlive p"
    "lastRunOn_adtSyncCheck p' = lastRunOn_adtSyncCheck p" "reportedHashes p' = reportedHashes p"
  using assms by (simp_all add: scheduler_fields_def)

lemmas unifyDevices_fields [simp] = scheduler_fieldsD [OF scheduler_fields_unifyDevices]

subsection \<open>The guards\<close>

lemma in_flight_simps [simp]:
  "in_flight K [] = 0"
  "in_flight K (t # ts) = (if K t then 1 else 0) + in_flight K ts"
  "in_flight K (ts @ us) = in_flight K ts + in_flight K us"
  by (simp_all add: in_flight_def)

lemma flag_simps [simp]: "flag True = 1" "flag False = 0"
  by (simp_all add: flag_def)

lemma tick_kind: "is_tick t \<Longrightarrow> \<not> is_keepAlive t \<and> \<not> is_syncCheck t"
  by (cases t) simp_all

lemma syncCheck_kind: "is_syncCheck t \<Longrightarrow> \<not> is_tick t \<and> \<not> is_keepAlive t"
  by (cases t) simp_all

lemma synchronizeKeepAlive_balanced: "balanced [] p (synchronizeKeepAlive p)"
  by (simp add: balanced_def synchronizeKeepAlive_def)

lemma synchronizeSyncCheck_balanced: "balanced [] p (synchronizeSyncCheck p)"
  by (simp add: balanced_def synchronizeSyncCheck_def)

lemma tick_subtasks_balanced:
  assumes "isSyncing p" "is_tick t"
  shows "balanced [t] p (tick_subtasks now p)"
  using assms tick_kind [of t]
  by (simp add: balanced_def tick_subtasks_def synchronizeKeepAlive_def synchronizeSyncCheck_def
      finish_sync_def Let_def)

lemma tick_after_login_balanced:
  assumes "isSyncing p" "is_tick t"
  shows "balanced [t] p (tick_after_login a now p)"
proof (cases "failedLogins p \<ge> maxLoginRetries (constants p)")
  case True
  with assms tick_kind [of t] show ?thesis by (simp add: tick_after_login_def balanced_def)
next
  case False
  show ?thesis
  proof (cases a)
    case True
    with False tick_subtasks_balanced [OF assms] show ?thesis by (simp add: tick_after_login_def)
  next
    case no: False
    with False assms tick_kind [of t] show ?thesis
      by (simp add: tick_after_login_def balanced_def finish_sync_def)
  qed
qed

lemma balanced_cong:
  assumes "balanced gone q r" "isSyncing q = isSyncing p" "isAdtKeepingAlive q = isAdtKeepingAlive p"
    "isAdtSyncChecking q = isAdtSyncChecking p" "api_instance q = api_instance p"
    "constants q = constants p"
  shows "balanced gone p r"
  using assms by (simp add: balanced_def)

lemma tick_login_finished_balanced:
  assumes "isSyncing p" "is_tick t"
  shows "balanced [t] p (tick_login_finished a now p)"
  unfolding tick_login_finished_def
  by (rule balanced_cong [OF tick_after_login_balanced]) (simp_all add: assms)

lemma synchronize_thrown_balanced:
  assumes "isSyncing p" "is_tick t"
  shows "balanced [t] p (synchronize_thrown p)"
  using assms tick_kind [of t] by (simp add: synchronize_thrown_def balanced_def finish_sync_def)

lemma tick_balanced: "balanced [] p (tick a now p)"
proof (cases "isSyncing p \<or> \<not> api_instance p")
  case True
  then show ?thesis by (auto simp: tick_def balanced_def)
next
  case False
  let ?p1 = "p\<lparr>isSyncing := True\<rparr>"
  have b1: "balanced [TickLogin] ?p1 (tick_after_login a now ?p1)"
    by (rule tick_after_login_balanced) simp_all
  have b2: "balanced [TickLogin] ?p1 (tick_subtasks now ?p1)"
    by (rule tick_subtasks_balanced) simp_all
  from False b1 b2 show ?thesis
    by (auto simp: tick_def balanced_def Let_def)
qed

lemma tick_login_done_balanced:
  assumes "isSyncing p"
  shows "balanced [TickLogin] p (tick_login_done X r a now p)"
proof (cases r)
  case Threw
  with synchronize_thrown_balanced [OF assms, of TickLogin] show ?thesis
    by (simp add: tick_login_done_def)
next
  case (Returned sv)
  obtain success pv where sv: "sv = (success, pv)" by (cases sv)
  show ?thesis
  proof (cases success)
    case True
    let ?p1 = "p\<lparr>lastRunOn_adtKeepAlive := now, lastRunOn_adtSyncCheck := now\<rparr>"
    have "balanced [TickLogin] p (tick_login_finished a now ?p1)"
      by (rule balanced_cong [OF tick_login_finished_balanced]) (simp_all add: assms)
    with True Returned sv assms show ?thesis
      by (simp add: tick_login_done_def Let_def) (simp add: balanced_def)
  next
    case False
    have "balanced [TickLogin] p (tick_login_finished a now q)"
      if "scheduler_fields q = scheduler_fields (p\<lparr>failedLogins := failedLogins p + 1\<rparr>)" for q
    proof -
      from that have "isSyncing q = isSyncing p" "isAdtKeepingAlive q = isAdtKeepingAlive p"
        "isAdtSyncChecking q = isAdtSyncChecking p" "api_instance q = api_instance p"
        "constants q = constants p"
        by (simp_all add: scheduler_fields_def)
      then show ?thesis
        by (intro balanced_cong [OF tick_login_finished_balanced]) (simp_all add: assms)
    qed
    with False Returned sv show ?thesis
      by (simp add: tick_login_done_def Let_def)
  qed
qed

lemma tick_detect_done_balanced:
  assumes "isSyncing p"
  shows "balanced [TickDetect pv] p (tick_detect_done X pv r a now p)"
proof (cases r)
  case Threw
  with synchronize_thrown_balanced [OF assms, of "TickDetect pv"] show ?thesis
    by (simp add: tick_detect_done_def)
next
  case (Returned b)
  have "balanced [TickDetect pv] p (tick_login_finished a now
            (if b then save_hash (generateHash X pv) p else p))"
    by (rule balanced_cong [OF tick_login_finished_balanced]) (simp_all add: assms save_hash_def)
  with Returned show ?thesis by (simp add: tick_detect_done_def)
qed

lemma tick_sleep_done_balanced:
  assumes "isSyncing p"
  shows "balanced [TickSleep] p (tick_sleep_done p)"
  using assms by (simp add: tick_sleep_done_def balanced_def finish_sync_def)

lemma keepAlive_done_balanced:
  assumes "isAdtKeepingAlive p"
  shows "balanced [KeepAliveAwait] p (keepAlive_done r now p)"
  using assms by (cases r) (simp_all add: keepAlive_done_def balanced_def Let_def)

lemma store_observation_fields [simp]:
  "isSyncing (store_observation ob p) = isSyncing p"
  "isAdtKeepingAlive (store_observation ob p) = isAdtKeepingAlive p"
  "isAdtSyncChecking (store_observation ob p) = isAdtSyncChecking p"
  "api_instance (store_observation ob p) = api_instance p"
  "constants (store_observation ob p) = constants p"
  "reportedHashes (store_observation ob p) = reportedHashes p"
  "failedLogins (store_observation ob p) = failedLogins p"
  "syncCode (store_observation ob p) = syncCode p"
  "trace (store_observation ob p) = trace p"
  "config (store_observation ob p) = config p"
  by (cases ob; simp)+

lemma fetch_process_balanced:
  assumes "isAdtSyncChecking p" "is_syncCheck t"
  shows "balanced [t] p (fetch_process X obs p)"
  using assms
proof (induction obs arbitrary: p)
  case Nil
  then show ?case using syncCheck_kind [of t] by (simp add: balanced_def)
next
  case (Cons ob obs)
  have "balanced [t] (store_observation ob p) (fetch_process X obs (store_observation ob p))"
    by (rule Cons.IH) (simp_all add: Cons.prems)
  then have "balanced [t] p (fetch_process X obs (store_observation ob p))"
    by (simp add: balanced_def)
  with Cons.prems syncCheck_kind [of t] show ?case
    by (simp add: Let_def) (simp add: balanced_def)
qed

lemma fetch_thrown_balanced:
  assumes "isAdtSyncChecking p" "is_syncCheck t"
  shows "balanced [t] p (fetch_thrown p)"
  using assms syncCheck_kind [of t] by (simp add: fetch_thrown_def balanced_def)

lemma fetch_all_done_balanced:
  assumes "isAdtSyncChecking p"
  shows "balanced [FetchAll] p (fetch_all_done X r p)"
  using fetch_process_balanced [OF assms, of FetchAll] fetch_thrown_balanced [OF assms, of FetchAll]
  by (cases r) (simp_all add: fetch_all_done_def)

lemma fetch_detect_done_balanced:
  assumes "isAdtSyncChecking p"
  shows "balanced [FetchDetect ob obs] p (fetch_detect_done X ob obs r p)"
proof (cases r)
  case Threw
  with fetch_thrown_balanced [OF assms, of "FetchDetect ob obs"] show ?thesis
    by (simp add: fetch_detect_done_def)
next
  case (Returned b)
  let ?q = "if b then save_hash (generateHash X (obs_payload X ob)) p else p"
  have "balanced [FetchDetect ob obs] ?q (fetch_process X obs ?q)"
    by (rule fetch_process_balanced) (simp_all add: assms save_hash_def)
  then have "balanced [FetchDetect ob obs] p (fetch_process X obs ?q)"
    by (rule balanced_cong) (simp_all add: save_hash_def)
  with Returned show ?thesis by (simp add: fetch_detect_done_def)
qed

lemma syncCheck_done_balanced:
  assumes "isAdtSyncChecking p"
  shows "balanced [SyncCheckAwait] p (syncCheck_done r now p)"
proof (cases r)
  case Threw
  with assms show ?thesis by (simp add: syncCheck_done_def balanced_def)
next
  case (Returned sv)
  obtain success code where "sv = (success, code)" by (cases sv)
  with Returned assms show ?thesis
    by (simp add: syncCheck_done_def balanced_def Let_def syncCheck_finish_def
        fetchUpdatedInformation_def)
qed

lemma syncCheck_resumed_balanced:
  assumes "isAdtSyncChecking p"
  shows "balanced [SyncCheckResumed] p (syncCheck_resumed now p)"
  using assms by (simp add: syncCheck_resumed_def syncCheck_finish_def balanced_def)

lemma resume_balanced:
  assumes "resume X t r a now p = Some res"
    and "is_tick t \<Longrightarrow> isSyncing p"
    and "is_keepAlive t \<Longrightarrow> isAdtKeepingAlive p"
    and "is_syncCheck t \<Longrightarrow> isAdtSyncChecking p"
  shows "balanced [t] p res"
  using assms
  by (cases "(X, t, r, a, now, p)" rule: resume.cases)
     (auto simp: tick_login_done_balanced tick_detect_done_balanced tick_sleep_done_balanced
        keepAlive_done_balanced syncCheck_done_balanced fetch_all_done_balanced
        fetch_detect_done_balanced syncCheck_resumed_balanced)

section \<open>The event loop: the guards hold in every reachable system\<close>

lemma in_flight_member: "t \<in> set ts \<Longrightarrow> K t \<Longrightarrow> 1 \<le> in_flight K ts"
  by (induction ts) auto

lemma flag_le_1: "flag b \<le> 1"
  by (simp add: flag_def)

lemma flag_pos: "1 \<le> flag b \<Longrightarrow> b"
  by (simp add: flag_def split: if_splits)

lemma guarded: "t \<in> set ts \<Longrightarrow> K t \<Longrightarrow> in_flight K ts = flag b \<Longrightarrow> b"
  using in_flight_member [of t ts K] flag_pos [of b] by simp

lemma scheduler_fields_configureAccessory [simp]:
  "scheduler_fields (configureAccessory a p) = scheduler_fields p"
  by (simp add: configureAccessory_def Let_def)

lemma scheduler_fields_fold_configure [simp]:
  "scheduler_fields (fold configureAccessory cached p) = scheduler_fields p"
  by (induction cached arbitrary: p) simp_all

lemma launched_platform:
  assumes "platformConfig_safeParse raw = Some c" "launch raw cached = Inr p"
  shows "\<not> isSyncing p" "\<not> isAdtKeepingAlive p" "\<not> isAdtSyncChecking p" "\<not> isLoggingIn p"
    "api_instance p" "constants p = initial_constants" "failedLogins p = 0"
    "reportedHashes p = []" "config p = Some c" "syncCode p = ''1-0-0''"
proof -
  let ?q = "fold configureAccessory cached initial_platform"
  have q: "scheduler_fields ?q = scheduler_fields initial_platform" by simp
  have p: "p = synchronize (emit (Log Info TransparencyNotice) (emit (Log Info SystemInformation)
            (emit NewADTPulse (?q\<lparr>config := Some c, api_instance := True\<rparr>))))"
    using assms launch_valid [OF assms(1), of cached] by simp
  show "\<not> isSyncing p" "\<not> isAdtKeepingAlive p" "\<not> isAdtSyncChecking p" "\<not> isLoggingIn p"
    "api_instance p" "constants p = initial_constants" "failedLogins p = 0"
    "reportedHashes p = []" "config p = Some c" "syncCode p = ''1-0-0''"
    unfolding p using scheduler_fieldsD [OF q]
    by (simp_all add: synchronize_def initial_platform_def)
qed

lemma step_guards_ok:
  assumes "step X s s'" "guards_ok s"
  shows "guards_ok s'"
  using assms
proof (cases rule: step.cases)
  case (timer a now p' ts)
  from tick_balanced [of "plat s" a now] timer(2) have "balanced [] (plat s) (p', ts)" by simp
  with assms(2) show ?thesis
    unfolding timer(1) by (simp add: guards_ok_def balanced_def)
next
  case (resumed before t after r a now p' ts)
  have mem: "t \<in> set (pending s)" using resumed(2) by simp
  have g: "in_flight is_tick (pending s) = flag (isSyncing (plat s))"
    "in_flight is_keepAlive (pending s) = flag (isAdtKeepingAlive (plat s))"
    "in_flight is_syncCheck (pending s) = flag (isAdtSyncChecking (plat s))"
    "api_instance (plat s)"
    using assms(2) by (simp_all add: guards_ok_def)
  have b: "balanced [t] (plat s) (p', ts)"
  proof (rule resume_balanced [OF resumed(3)])
    assume "is_tick t"
    from guarded [OF mem this g(1)] show "isSyncing (plat s)" .
  next
    assume "is_keepAlive t"
    from guarded [OF mem this g(2)] show "isAdtKeepingAlive (plat s)" .
  next
    assume "is_syncCheck t"
    from guarded [OF mem this g(3)] show "isAdtSyncChecking (plat s)" .
  qed
  from b g show ?thesis
    unfolding resumed(1) guards_ok_def
    by (simp add: resumed(2) balanced_def)
qed

lemma reachable_guards_ok: "reachable X s \<Longrightarrow> guards_ok s"
proof (induction rule: reachable.induct)
  case (started raw c cached p)
  from launched_platform [OF started] show ?case by (simp add: guards_ok_def)
next
  case (stepped s s')
  then show ?case by (simp add: step_guards_ok)
qed

lemma occur_step: "occur X oc s = Some s' \<Longrightarrow> step X s s'"
proof (cases oc)
  case (Timer a now)
  assume "occur X oc s = Some s'"
  with Timer obtain p' ts where "tick a now (plat s) = (p', ts)"
    "s' = \<lparr>plat = p', pending = pending s @ ts\<rparr>"
    by (cases "tick a now (plat s)") auto
  then show ?thesis by (auto intro: step.timer)
next
  case (Resume i r a now)
  assume oc: "occur X oc s = Some s'"
  with Resume have i: "i < length (pending s)" by (simp split: if_splits)
  with oc Resume obtain p' ts where r: "resume X (pending s ! i) r a now (plat s) = Some (p', ts)"
    "s' = \<lparr>plat = p', pending = take i (pending s) @ ts @ drop (Suc i) (pending s)\<rparr>"
    by (auto split: option.splits)
  have "pending s = take i (pending s) @ (pending s ! i) # drop (Suc i) (pending s)"
    using i by (simp add: id_take_nth_drop)
  from step.resumed [OF this r(1)] r(2) show ?thesis by simp
qed

lemma run_reachable: "reachable X s \<Longrightarrow> run X ocs s = Some s' \<Longrightarrow> reachable X s'"
proof (induction ocs arbitrary: s)
  case Nil
  then show ?case by simp
next
  case (Cons oc ocs)
  from Cons.prems(2) obtain s1 where s1: "occur X oc s = Some s1" "run X ocs s1 = Some s'"
    by (auto split: option.splits)
  from Cons.prems(1) occur_step [OF s1(1)] have "reachable X s1" by (rule reachable.stepped)
  from Cons.IH [OF this s1(2)] show ?case .
qed

section \<open>The example system\<close>

lemma ex_parse:
  "platformConfig_safeParse (ex_raw ''normal'' 1 [ex_front_door])
      = Some (ex_config ''normal'' 1 [ex_front_door])"
  by (rule ex_raw_parses)

lemma ex_started_plat:
  "plat ex_started =
     initial_platform\<lparr>config := Some (ex_config ''normal'' 1 [ex_front_door]), api_instance := True,
       interval_synchronize := Some 1000,
       trace := [NewADTPulse, Log Info SystemInformation, Log Info TransparencyNotice, SetInterval 1000]\<rparr>"
  unfolding ex_started_def launch_valid [OF ex_parse]
  by (simp add: synchronize_def emit_def initial_platform_def initial_constants_def)

lemma ex_started_pending: "pending ex_started = []"
  by (simp add: ex_started_def)

lemma ex_started_reachable: "reachable X ex_started"
proof -
  have "launch (ex_raw ''normal'' 1 [ex_front_door]) [] = Inr (plat ex_started)"
    unfolding ex_started_def launch_valid [OF ex_parse] by simp
  from reachable.started [OF ex_parse this, of X] show ?thesis
    by (simp add: ex_started_def)
qed

lemma ex_after_reachable:
  "run ex_externals ocs ex_started = Some s \<Longrightarrow> reachable ex_externals (ex_after ocs)"
  using run_reachable [OF ex_started_reachable, of ex_externals ocs s]
  by (simp add: ex_after_def)


lemmas sched_defs = tick_def Let_def emit_def
    tick_login_done_def tick_login_finished_def tick_after_login_def finish_sync_def tick_subtasks_def
    tick_detect_done_def tick_sleep_done_def save_hash_def synchronizeKeepAlive_def
    synchronizeSyncCheck_def synchronize_thrown_def keepAlive_done_def syncCheck_done_def
    syncCheck_finish_def syncCheck_resumed_def fetchUpdatedInformation_def fetch_all_done_def
    fetch_detect_done_def fetch_thrown_def successful_def

section \<open>One synchronization at a time\<close>

lemma tick_noop: "isSyncing p \<Longrightarrow> tick a now p = (p, [])"
  by (simp add: tick_def)

lemma tick_subtasks_no_tick: "t' \<in> set (snd (tick_subtasks now p)) \<Longrightarrow> \<not> is_tick t'"
  by (auto simp: tick_subtasks_def synchronizeKeepAlive_def synchronizeSyncCheck_def Let_def
      split: if_splits)

lemma tick_after_login_tasks:
  "t' \<in> set (snd (tick_after_login a now p)) \<Longrightarrow> is_tick t' \<Longrightarrow> t' = TickSleep"
  using tick_subtasks_no_tick [of t' now p]
  by (auto simp: tick_after_login_def split: if_splits)

lemma tick_login_finished_tasks:
  "t' \<in> set (snd (tick_login_finished a now p)) \<Longrightarrow> is_tick t' \<Longrightarrow> t' = TickSleep"
  unfolding tick_login_finished_def by (rule tick_after_login_tasks)

lemma tick_login_done_tasks:
  assumes "t' \<in> set (snd (tick_login_done X r a now p))" "is_tick t'"
  shows "t' = TickSleep \<or> (\<exists>pv. t' = TickDetect pv)"
proof (cases r)
  case Threw
  with assms show ?thesis by (simp add: tick_login_done_def synchronize_thrown_def)
next
  case (Returned sv)
  obtain success pv where sv: "sv = (success, pv)" by (cases sv)
  from assms show ?thesis
    unfolding Returned sv tick_login_done_def
    by (auto simp: Let_def split: if_splits dest: tick_login_finished_tasks)
qed

lemma tick_detect_done_tasks:
  assumes "t' \<in> set (snd (tick_detect_done X pv r a now p))" "is_tick t'"
  shows "t' = TickSleep"
  using assms
  by (cases r) (auto simp: tick_detect_done_def synchronize_thrown_def
      dest: tick_login_finished_tasks split: if_splits)

lemma tick_rank_decreases:
  assumes "resume X t r a now p = Some (p', ts)" "is_tick t" "t' \<in> set ts" "is_tick t'"
  shows "tick_rank t' < tick_rank t"
proof (cases t)
  case TickLogin
  with assms(1) obtain lr where "r = LoginDone lr" "tick_login_done X lr a now p = (p', ts)"
    by (cases r) auto
  with tick_login_done_tasks [of t' X lr a now p] assms(3,4) TickLogin show ?thesis by auto
next
  case (TickDetect pv)
  with assms(1) obtain dr where "r = DetectDone dr" "tick_detect_done X pv dr a now p = (p', ts)"
    by (cases r) auto
  with tick_detect_done_tasks [of t' X pv dr a now p] assms(3,4) TickDetect show ?thesis by auto
next
  case TickSleep
  with assms(1) have "ts = []" by (cases r) (auto simp: tick_sleep_done_def)
  with assms(3) show ?thesis by simp
qed (use assms(2) in simp_all)

lemma flag_eq_1 [simp]: "flag b = 1 \<longleftrightarrow> b" "flag b = Suc 0 \<longleftrightarrow> b"
  by (simp_all add: flag_def)

lemma guards_ok_tick:
  assumes "guards_ok s"
  shows "in_flight is_tick (pending s) \<le> 1"
    "isSyncing (plat s) \<longleftrightarrow> in_flight is_tick (pending s) = 1"
  using assms flag_le_1 [of "isSyncing (plat s)"] by (simp_all add: guards_ok_def)

text \<open>
  Claim C2. In every system the plugin can reach, by any interleaving of timer ticks
  and resumed tasks, at most one tick is suspended, and \<open>isSyncing\<close> is set exactly
  while one is. A tick that begins while the flag is set returns at once, leaving the
  platform as it is and nothing suspended; one that begins while it is clear leaves the
  flag set exactly when it is suspended at an \<open>await\<close>. Whenever a suspended tick is
  resumed, the flag is set afterwards exactly when the tick is suspended again, so every
  way out of the tick clears it, and the tick can be suspended again only at a later
  \<open>await\<close> (login, then detector, then sleep). When the awaited login or detector
  throws, the tick ends with the flag cleared.
\<close>

theorem single_sync_in_progress:
  assumes "reachable X s"
  shows "in_flight is_tick (pending s) \<le> 1
     \<and> (isSyncing (plat s) \<longleftrightarrow> in_flight is_tick (pending s) = 1)
     \<and> (isSyncing (plat s) \<longrightarrow> tick a now (plat s) = (plat s, []))
     \<and> (\<not> isSyncing (plat s) \<longrightarrow>
          (isSyncing (fst (tick a now (plat s))) \<longleftrightarrow> in_flight is_tick (snd (tick a now (plat s))) = 1))
     \<and> (\<forall>s'. step X s s' \<longrightarrow> in_flight is_tick (pending s') \<le> 1
            \<and> (isSyncing (plat s') \<longleftrightarrow> in_flight is_tick (pending s') = 1))
     \<and> (\<forall>t r a' now' p' ts. t \<in> set (pending s) \<and> is_tick t
            \<and> resume X t r a' now' (plat s) = Some (p', ts)
          \<longrightarrow> (isSyncing p' \<longleftrightarrow> in_flight is_tick ts = 1)
            \<and> (\<forall>t'\<in>set ts. is_tick t' \<longrightarrow> tick_rank t' < tick_rank t))
     \<and> snd (tick_login_done X Threw a now (plat s)) = []
     \<and> \<not> isSyncing (fst (tick_login_done X Threw a now (plat s)))
     \<and> snd (tick_detect_done X pv Threw a now (plat s)) = []
     \<and> \<not> isSyncing (fst (tick_detect_done X pv Threw a now (plat s)))"
proof -
  have g: "guards_ok s" using assms by (rule reachable_guards_ok)
  note c1 = guards_ok_tick [OF g]
  have c3: "isSyncing (plat s) \<longrightarrow> tick a now (plat s) = (plat s, [])"
    by (simp add: tick_noop)
  have c4: "\<not> isSyncing (plat s) \<longrightarrow>
      (isSyncing (fst (tick a now (plat s))) \<longleftrightarrow> in_flight is_tick (snd (tick a now (plat s))) = 1)"
    using tick_balanced [of "plat s" a now] by (auto simp: balanced_def)
  have c5: "in_flight is_tick (pending s') \<le> 1
            \<and> (isSyncing (plat s') \<longleftrightarrow> in_flight is_tick (pending s') = 1)"
    if "step X s s'" for s'
    using guards_ok_tick [OF step_guards_ok [OF that g]] by simp
  have c6: "(isSyncing p' \<longleftrightarrow> in_flight is_tick ts = 1)
            \<and> (\<forall>t'\<in>set ts. is_tick t' \<longrightarrow> tick_rank t' < tick_rank t)"
    if "t \<in> set (pending s)" "is_tick t" "resume X t r a' now' (plat s) = Some (p', ts)"
    for t r a' now' p' ts
  proof -
    have sy: "isSyncing (plat s)"
      using c1(2) in_flight_member [OF that(1), of is_tick] that(2) c1(1) by simp
    have "balanced [t] (plat s) (p', ts)"
      using that(2) sy tick_kind [OF that(2)] by (intro resume_balanced [OF that(3)]) simp_all
    with that(2) sy have "isSyncing p' \<longleftrightarrow> in_flight is_tick ts = 1"
      by (auto simp: balanced_def)
    with tick_rank_decreases [OF that(3) that(2)] show ?thesis by blast
  qed
  have c7: "snd (tick_login_done X Threw a now (plat s)) = []"
    "\<not> isSyncing (fst (tick_login_done X Threw a now (plat s)))"
    "snd (tick_detect_done X pv Threw a now (plat s)) = []"
    "\<not> isSyncing (fst (tick_detect_done X pv Threw a now (plat s)))"
    by (simp_all add: tick_login_done_def tick_detect_done_def synchronize_thrown_def finish_sync_def)
  from c1 c3 c4 c5 c6 c7 show ?thesis by blast
qed

text \<open>C2 at the system reached by one timer tick while unauthenticated: the login is
  awaited, and a second tick does nothing.\<close>

theorem single_sync_in_progress_witness:
  "run ex_externals [Timer False 1000] ex_started = Some (ex_after [Timer False 1000])
   \<and> pending (ex_after [Timer False 1000]) = [TickLogin]
   \<and> isSyncing (plat (ex_after [Timer False 1000]))
   \<and> in_flight is_tick (pending (ex_after [Timer False 1000])) = 1
   \<and> tick True 2000 (plat (ex_after [Timer False 1000])) = (plat (ex_after [Timer False 1000]), [])
   \<and> \<not> isSyncing (fst (tick_login_done ex_externals Threw True 2000 (plat (ex_after [Timer False 1000]))))"
proof -
  have r: "run ex_externals [Timer False 1000] ex_started = Some (ex_after [Timer False 1000])"
    by (simp add: ex_after_def split: prod.splits)
  have p: "pending (ex_after [Timer False 1000]) = [TickLogin]"
    by (simp add: ex_after_def ex_started_plat ex_started_pending initial_platform_def tick_def Let_def)
  have i: "in_flight is_tick (pending (ex_after [Timer False 1000])) = 1"
    by (simp add: p)
  note t = single_sync_in_progress [OF ex_after_reachable [OF r], of True 2000]
  from t i have sy: "isSyncing (plat (ex_after [Timer False 1000]))" by blast
  with t have no: "tick True 2000 (plat (ex_after [Timer False 1000]))
      = (plat (ex_after [Timer False 1000]), [])" by blast
  from t have th: "\<not> isSyncing (fst (tick_login_done ex_externals Threw True 2000
      (plat (ex_after [Timer False 1000]))))" by blast
  from r p sy i no th show ?thesis by blast
qed

section \<open>The sync check and the refresh\<close>

lemma refreshes_simps [simp]:
  "refreshes [] = 0"
  "refreshes (e # t) = (if e = CallGetAll then 1 else 0) + refreshes t"
  "refreshes (t @ u) = refreshes t + refreshes u"
  by (simp_all add: refreshes_def)

lemma refreshes_portal_calls: "refreshes (portal_calls t) = refreshes t"
  by (induction t) auto

lemma refreshes_unifyDevices [simp]:
  "refreshes (trace (unifyDevices X p)) = refreshes (trace p)"
  using refreshes_portal_calls [of "trace (unifyDevices X p)"] refreshes_portal_calls [of "trace p"]
  by simp

lemma refreshes_fetch_process [simp]:
  "refreshes (trace (fst (fetch_process X obs p))) = refreshes (trace p)"
  by (induction obs arbitrary: p) (simp_all add: Let_def)

lemma refreshes_tick_subtasks [simp]:
  "refreshes (trace (fst (tick_subtasks now p))) = refreshes (trace p)"
  by (simp add: tick_subtasks_def synchronizeKeepAlive_def synchronizeSyncCheck_def
      finish_sync_def Let_def)

lemma refreshes_tick_after_login [simp]:
  "refreshes (trace (fst (tick_after_login a now p))) = refreshes (trace p)"
  by (simp add: tick_after_login_def finish_sync_def)

lemma refreshes_tick [simp]: "refreshes (trace (fst (tick a now p))) = refreshes (trace p)"
  by (simp add: tick_def Let_def)

lemma refreshes_tick_login_done [simp]:
  "refreshes (trace (fst (tick_login_done X r a now p))) = refreshes (trace p)"
  by (cases r)
     (simp_all add: tick_login_done_def tick_login_finished_def synchronize_thrown_def
        finish_sync_def Let_def split: prod.splits)

lemma refreshes_tick_detect_done [simp]:
  "refreshes (trace (fst (tick_detect_done X pv r a now p))) = refreshes (trace p)"
  by (cases r)
     (simp_all add: tick_detect_done_def tick_login_finished_def synchronize_thrown_def
        finish_sync_def save_hash_def)

lemma refreshes_tick_sleep_done [simp]:
  "refreshes (trace (fst (tick_sleep_done p))) = refreshes (trace p)"
  by (simp add: tick_sleep_done_def finish_sync_def)

lemma refreshes_keepAlive_done [simp]:
  "refreshes (trace (fst (keepAlive_done kr now p))) = refreshes (trace p)"
  by (cases kr) (simp_all add: keepAlive_done_def Let_def)

lemma refreshes_fetch_all_done [simp]:
  "refreshes (trace (fst (fetch_all_done X gr p))) = refreshes (trace p)"
  by (cases gr) (simp_all add: fetch_all_done_def fetch_thrown_def)

lemma refreshes_fetch_detect_done [simp]:
  "refreshes (trace (fst (fetch_detect_done X ob obs dr p))) = refreshes (trace p)"
  by (cases dr) (simp_all add: fetch_detect_done_def fetch_thrown_def save_hash_def)

lemma refreshes_syncCheck_resumed [simp]:
  "refreshes (trace (fst (syncCheck_resumed now p))) = refreshes (trace p)"
  by (simp add: syncCheck_resumed_def syncCheck_finish_def)

lemma fst_eqD: "r = (p', ts) \<Longrightarrow> fst r = p'"
  by simp

lemma resume_no_refresh:
  assumes "resume X t r a now p = Some (p', ts)" "t \<noteq> SyncCheckAwait"
  shows "refreshes (trace p') = refreshes (trace p)"
  using assms
  by (cases "(X, t, r, a, now, p)" rule: resume.cases) (auto dest!: fst_eqD)

lemma syncCheck_done_outdated:
  assumes "api_instance p" "code \<noteq> syncCode p"
  shows "syncCheck_done (Returned (True, code)) now p =
     (emit CallGetAll ((emit (Log Debug (DataOutdated (syncCode p) code))
         (emit (Log Debug SyncCheckSuccessful) p))\<lparr>syncCode := code\<rparr>), [FetchAll])"
  using assms by (simp add: syncCheck_done_def fetchUpdatedInformation_def Let_def)

lemma syncCheck_done_current:
  "syncCheck_done (Returned (True, syncCode p)) now p =
     (syncCheck_finish now (emit (Log Debug SyncCheckSuccessful) p), [])"
  by (simp add: syncCheck_done_def Let_def)

text \<open>
  Claim C4. In every reachable system: while a sync check or the refresh it awaits is
  suspended, \<open>isAdtSyncChecking\<close> is set, no second one is suspended, and starting a
  sync check does nothing; when such a task is resumed, the guard stays set exactly when
  the task is suspended again, so it is released only when the sync check, refresh
  included, has ended. A successful result whose code differs from the cached one
  stores the new code and calls \<open>fetchUpdatedInformation\<close> once (one bulk fetch is
  issued and awaited, the guard unchanged); a successful result with the cached code
  ends the sync check with no fetch and the code unchanged. No other segment, and no
  tick, issues a fetch.
\<close>

theorem syncCheck_refreshes_once:
  assumes "reachable X s"
  shows "(\<forall>t\<in>set (pending s). is_syncCheck t \<longrightarrow>
            isAdtSyncChecking (plat s) \<and> synchronizeSyncCheck (plat s) = (plat s, [])
            \<and> in_flight is_syncCheck (pending s) = 1)
     \<and> (\<forall>t r a now' p' ts. t \<in> set (pending s) \<and> is_syncCheck t
            \<and> resume X t r a now' (plat s) = Some (p', ts)
          \<longrightarrow> in_flight is_syncCheck ts \<le> 1
            \<and> (isAdtSyncChecking p' \<longleftrightarrow> in_flight is_syncCheck ts = 1))
     \<and> (code \<noteq> syncCode (plat s) \<longrightarrow>
           syncCode (fst (syncCheck_done (Returned (True, code)) now (plat s))) = code
         \<and> snd (syncCheck_done (Returned (True, code)) now (plat s)) = [FetchAll]
         \<and> refreshes (trace (fst (syncCheck_done (Returned (True, code)) now (plat s))))
             = refreshes (trace (plat s)) + 1
         \<and> isAdtSyncChecking (fst (syncCheck_done (Returned (True, code)) now (plat s)))
             = isAdtSyncChecking (plat s))
     \<and> (snd (syncCheck_done (Returned (True, syncCode (plat s))) now (plat s)) = []
         \<and> refreshes (trace (fst (syncCheck_done (Returned (True, syncCode (plat s))) now (plat s))))
             = refreshes (trace (plat s))
         \<and> syncCode (fst (syncCheck_done (Returned (True, syncCode (plat s))) now (plat s)))
             = syncCode (plat s)
         \<and> \<not> isAdtSyncChecking (fst (syncCheck_done (Returned (True, syncCode (plat s))) now (plat s))))
     \<and> (\<forall>t r a now' p' ts. t \<noteq> SyncCheckAwait \<and> resume X t r a now' (plat s) = Some (p', ts)
          \<longrightarrow> refreshes (trace p') = refreshes (trace (plat s)))
     \<and> refreshes (trace (fst (tick a now (plat s)))) = refreshes (trace (plat s))"
proof -
  have g: "guards_ok s" using assms by (rule reachable_guards_ok)
  then have gs: "in_flight is_syncCheck (pending s) = flag (isAdtSyncChecking (plat s))"
    and api: "api_instance (plat s)"
    by (simp_all add: guards_ok_def)
  have held: "isAdtSyncChecking (plat s)" if "t \<in> set (pending s)" "is_syncCheck t" for t
    using guarded [OF that gs] .
  have c1: "isAdtSyncChecking (plat s) \<and> synchronizeSyncCheck (plat s) = (plat s, [])
            \<and> in_flight is_syncCheck (pending s) = 1"
    if "t \<in> set (pending s)" "is_syncCheck t" for t
    using held [OF that] gs by (simp add: synchronizeSyncCheck_def)
  have c2: "in_flight is_syncCheck ts \<le> 1
            \<and> (isAdtSyncChecking p' \<longleftrightarrow> in_flight is_syncCheck ts = 1)"
    if "t \<in> set (pending s)" "is_syncCheck t" "resume X t r a now' (plat s) = Some (p', ts)"
    for t r a now' p' ts
  proof -
    have "balanced [t] (plat s) (p', ts)"
      using that(2) held [OF that(1,2)] syncCheck_kind [OF that(2)]
      by (intro resume_balanced [OF that(3)]) simp_all
    with that(2) held [OF that(1,2)] flag_le_1 [of "isAdtSyncChecking p'"] show ?thesis
      by (auto simp: balanced_def)
  qed
  have c3: "syncCode (fst (syncCheck_done (Returned (True, code)) now (plat s))) = code
         \<and> snd (syncCheck_done (Returned (True, code)) now (plat s)) = [FetchAll]
         \<and> refreshes (trace (fst (syncCheck_done (Returned (True, code)) now (plat s))))
             = refreshes (trace (plat s)) + 1
         \<and> isAdtSyncChecking (fst (syncCheck_done (Returned (True, code)) now (plat s)))
             = isAdtSyncChecking (plat s)"
    if "code \<noteq> syncCode (plat s)"
    by (simp add: syncCheck_done_outdated [OF api that])
  have c4: "snd (syncCheck_done (Returned (True, syncCode (plat s))) now (plat s)) = []
         \<and> refreshes (trace (fst (syncCheck_done (Returned (True, syncCode (plat s))) now (plat s))))
             = refreshes (trace (plat s))
         \<and> syncCode (fst (syncCheck_done (Returned (True, syncCode (plat s))) now (plat s)))
             = syncCode (plat s)
         \<and> \<not> isAdtSyncChecking (fst (syncCheck_done (Returned (True, syncCode (plat s))) now (plat s)))"
    by (simp add: syncCheck_done_current syncCheck_finish_def)
  have c5: "refreshes (trace p') = refreshes (trace (plat s))"
    if "t \<noteq> SyncCheckAwait" "resume X t r a now' (plat s) = Some (p', ts)" for t r a now' p' ts
    using resume_no_refresh [OF that(2,1)] .
  from c1 c2 c3 c4 c5 show ?thesis by (simp only: refreshes_tick) blast
qed


lemma ex_first_check_run:
  "map_option (\<lambda>s. (pending s, syncCode (plat s), isAdtSyncChecking (plat s)))
     (run ex_externals ex_first_check ex_started) = Some ([SyncCheckAwait], ''1-0-0'', True)"
  by (simp add: ex_first_check_def ex_started_plat ex_started_pending initial_platform_def
      initial_constants_def sched_defs)

lemma ex_second_check_run:
  "map_option (\<lambda>s. (pending s, syncCode (plat s), refreshes (trace (plat s))))
     (run ex_externals ex_second_check ex_started) = Some ([SyncCheckAwait], ''2-1-0'', 1)"
  by (simp add: ex_second_check_def ex_started_plat ex_started_pending initial_platform_def
      initial_constants_def ex_externals_def sched_defs unifyDevices_def unify_list_def
      ex_config_def ex_front_door_def sensor_matches_def)

lemma ex_after_eq:
  "map_option f (run ex_externals ocs ex_started) = Some v
     \<Longrightarrow> run ex_externals ocs ex_started = Some (ex_after ocs) \<and> f (ex_after ocs) = v"
  by (auto simp: ex_after_def)

text \<open>C4 on the scenario of the specification: cached code \<open>1-0-0\<close>, a check returning
  \<open>2-1-0\<close> triggers one refresh; after it, a check returning \<open>2-1-0\<close> again triggers
  none.\<close>

theorem syncCheck_refreshes_once_witness:
  "pending (ex_after ex_first_check) = [SyncCheckAwait]
   \<and> syncCode (plat (ex_after ex_first_check)) = ''1-0-0''
   \<and> isAdtSyncChecking (plat (ex_after ex_first_check))
   \<and> synchronizeSyncCheck (plat (ex_after ex_first_check)) = (plat (ex_after ex_first_check), [])
   \<and> snd (syncCheck_done (Returned (True, ''2-1-0'')) 5100 (plat (ex_after ex_first_check))) = [FetchAll]
   \<and> refreshes (trace (fst (syncCheck_done (Returned (True, ''2-1-0'')) 5100 (plat (ex_after ex_first_check)))))
       = refreshes (trace (plat (ex_after ex_first_check))) + 1
   \<and> pending (ex_after ex_second_check) = [SyncCheckAwait]
   \<and> syncCode (plat (ex_after ex_second_check)) = ''2-1-0''
   \<and> refreshes (trace (plat (ex_after ex_second_check))) = 1
   \<and> refreshes (trace (fst (syncCheck_done (Returned (True, ''2-1-0'')) 9100 (plat (ex_after ex_second_check)))))
       = 1"
proof -
  from ex_after_eq [OF ex_first_check_run]
  have r1: "run ex_externals ex_first_check ex_started = Some (ex_after ex_first_check)"
    and p1: "pending (ex_after ex_first_check) = [SyncCheckAwait]"
    and c1: "syncCode (plat (ex_after ex_first_check)) = ''1-0-0''"
    by simp_all
  from ex_after_eq [OF ex_second_check_run]
  have r2: "run ex_externals ex_second_check ex_started = Some (ex_after ex_second_check)"
    and p2: "pending (ex_after ex_second_check) = [SyncCheckAwait]"
    and c2: "syncCode (plat (ex_after ex_second_check)) = ''2-1-0''"
    and n2: "refreshes (trace (plat (ex_after ex_second_check))) = 1"
    by simp_all
  note t1 = syncCheck_refreshes_once [OF ex_after_reachable [OF r1],
      where code = "''2-1-0''" and now = 5100]
  note t2 = syncCheck_refreshes_once [OF ex_after_reachable [OF r2], where now = 9100]
  have d: "''2-1-0'' \<noteq> syncCode (plat (ex_after ex_first_check))" by (simp add: c1)
  from t1 p1 have a1: "isAdtSyncChecking (plat (ex_after ex_first_check))"
    "synchronizeSyncCheck (plat (ex_after ex_first_check)) = (plat (ex_after ex_first_check), [])"
    by simp_all
  from t1 d have a2:
    "snd (syncCheck_done (Returned (True, ''2-1-0'')) 5100 (plat (ex_after ex_first_check))) = [FetchAll]"
    "refreshes (trace (fst (syncCheck_done (Returned (True, ''2-1-0'')) 5100 (plat (ex_after ex_first_check)))))
       = refreshes (trace (plat (ex_after ex_first_check))) + 1"
    by blast+
  from t2 have "refreshes (trace (fst (syncCheck_done (Returned (True, syncCode (plat (ex_after ex_second_check))))
        9100 (plat (ex_after ex_second_check)))))
       = refreshes (trace (plat (ex_after ex_second_check)))"
    by blast
  then have a3: "refreshes (trace (fst (syncCheck_done (Returned (True, ''2-1-0'')) 9100
        (plat (ex_after ex_second_check))))) = 1"
    by (simp add: c2 n2)
  from p1 c1 a1 a2 p2 c2 n2 a3 show ?thesis by blast
qed

section \<open>The reported hashes\<close>

lemma detected_simps [simp]:
  "detected X [] = []"
  "detected X (e # t) = detect_hash X e @ detected X t"
  "detected X (t @ u) = detected X t @ detected X u"
  by (simp_all add: detected_def)

lemma detected_portal_calls: "detected X (portal_calls t) = detected X t"
proof (induction t)
  case Nil
  then show ?case by simp
next
  case (Cons e t)
  then show ?case by (cases e) simp_all
qed

lemma detected_unifyDevices [simp]:
  "detected X (trace (unifyDevices X p)) = detected X (trace p)"
  using detected_portal_calls [of X "trace (unifyDevices X p)"] detected_portal_calls [of X "trace p"]
  by simp

lemma keeps_refl [simp]: "keeps_reported X h p p"
  by (simp add: keeps_reported_def)


































text \<open>The hash is saved only when the detector answers true. When it answers false, the
  next login with the same portal version calls the detector again.\<close>

lemma detector_answering_false_is_called_again:
  "map_option (\<lambda>s. (reportedHashes (plat s), detected ex_externals (trace (plat s)), pending s))
     (run ex_externals
        [Timer False 1000,
         Resume 0 (LoginDone (Returned (True, ''v1''))) True 1500,
         Resume 0 (DetectDone (Returned False)) True 1600,
         Timer False 2000,
         Resume 0 (LoginDone (Returned (True, ''v1''))) True 2500] ex_started)
     = Some ([], [''hash-of-v1'', ''hash-of-v1''], [TickDetect ''v1''])"
  by (simp add: ex_started_plat ex_started_pending initial_platform_def
      initial_constants_def ex_externals_def sched_defs)

section \<open>The failed-login count and the cooldown\<close>

lemma failedLogins_tick_subtasks [simp]:
  "failedLogins (fst (tick_subtasks now p)) = failedLogins p"
  by (simp add: tick_subtasks_def synchronizeKeepAlive_def synchronizeSyncCheck_def
      finish_sync_def Let_def)

lemma failedLogins_tick_after_login [simp]:
  "failedLogins (fst (tick_after_login a now p)) = failedLogins p"
  by (simp add: tick_after_login_def finish_sync_def)

lemma failedLogins_tick_login_finished [simp]:
  "failedLogins (fst (tick_login_finished a now p)) = failedLogins p"
  by (simp add: tick_login_finished_def)

lemma failedLogins_tick [simp]: "failedLogins (fst (tick a now p)) = failedLogins p"
  by (simp add: tick_def Let_def)

lemma failedLogins_login_succeeded [simp]:
  "failedLogins (fst (tick_login_done X (Returned (True, pv)) a now p)) = failedLogins p"
  by (simp add: tick_login_done_def Let_def)

lemma failedLogins_login_failed [simp]:
  "failedLogins (fst (tick_login_done X (Returned (False, pv)) a now p)) = failedLogins p + 1"
  by (simp add: tick_login_done_def Let_def)

lemma failedLogins_login_threw [simp]:
  "failedLogins (fst (tick_login_done X Threw a now p)) = failedLogins p"
  by (simp add: tick_login_done_def synchronize_thrown_def finish_sync_def)

lemma failedLogins_tick_detect_done [simp]:
  "failedLogins (fst (tick_detect_done X pv r a now p)) = failedLogins p"
  by (cases r) (simp_all add: tick_detect_done_def synchronize_thrown_def finish_sync_def
      save_hash_def)

lemma failedLogins_fetch_process [simp]:
  "failedLogins (fst (fetch_process X obs p)) = failedLogins p"
  by (induction obs arbitrary: p) (simp_all add: Let_def)

lemma failedLogins_other_tasks:
  assumes "resume X t r a now p = Some (p', ts)" "\<not> is_tick t"
  shows "failedLogins p' = failedLogins p"
proof -
  have k: "failedLogins (fst (keepAlive_done kr now p)) = failedLogins p" for kr
    by (cases kr) (simp_all add: keepAlive_done_def Let_def)
  have c: "failedLogins (fst (syncCheck_done sr now p)) = failedLogins p" for sr
    by (cases sr) (simp_all add: syncCheck_done_def Let_def syncCheck_finish_def
        fetchUpdatedInformation_def split: prod.splits)
  have f: "failedLogins (fst (fetch_all_done X gr p)) = failedLogins p" for gr
    by (cases gr) (simp_all add: fetch_all_done_def fetch_thrown_def)
  have d: "failedLogins (fst (fetch_detect_done X ob obs dr p)) = failedLogins p" for ob obs dr
    by (cases dr) (simp_all add: fetch_detect_done_def fetch_thrown_def save_hash_def)
  have y: "failedLogins (fst (syncCheck_resumed now p)) = failedLogins p"
    by (simp add: syncCheck_resumed_def syncCheck_finish_def)
  from assms show ?thesis
    by (cases "(X, t, r, a, now, p)" rule: resume.cases) (auto dest!: fst_eqD simp: k c f d y)
qed

lemma login_failed_cooldown:
  assumes "failedLogins p + 1 \<ge> maxLoginRetries (constants p)"
  shows "snd (tick_login_done X (Returned (False, pv)) a now p) = [TickSleep]"
    "last (trace (fst (tick_login_done X (Returned (False, pv)) a now p)))
       = CallSleep (suspendSyncing (constants p))"
  using assms
  by (simp_all add: tick_login_done_def tick_login_finished_def tick_after_login_def Let_def)

lemma tick_task_cooldown:
  assumes "resume X t r a now p = Some (p', ts)" "is_tick t" "t \<noteq> TickSleep"
    "0 \<le> failedLogins p" "failedLogins p < maxLoginRetries (constants p)"
    "constants p' = constants p"
  shows "0 \<le> failedLogins p' \<and> failedLogins p' \<le> maxLoginRetries (constants p)
     \<and> (failedLogins p' = maxLoginRetries (constants p) \<longrightarrow> TickSleep \<in> set ts)"
proof (cases t)
  case TickLogin
  with assms(1) obtain lr where r: "r = LoginDone lr" and e: "tick_login_done X lr a now p = (p', ts)"
    by (cases r) auto
  show ?thesis
  proof (cases lr)
    case Threw
    with e [THEN fst_eqD] assms(4,5) show ?thesis by auto
  next
    case (Returned sv)
    obtain success pv where sv: "sv = (success, pv)" by (cases sv)
    show ?thesis
    proof (cases success)
      case True
      with e [THEN fst_eqD] Returned sv assms(4,5) show ?thesis by auto
    next
      case False
      with e Returned sv have e': "tick_login_done X (Returned (False, pv)) a now p = (p', ts)"
        by simp
      from e' [THEN fst_eqD] have f: "failedLogins p' = failedLogins p + 1" by auto
      have "TickSleep \<in> set ts" if "failedLogins p' = maxLoginRetries (constants p)"
        using login_failed_cooldown(1) [of p X pv a now] that f e' by simp
      with f assms(4,5) show ?thesis by simp
    qed
  qed
next
  case (TickDetect pv)
  with assms(1) obtain dr where "tick_detect_done X pv dr a now p = (p', ts)"
    by (cases r) auto
  from this [THEN fst_eqD] assms(4,5) show ?thesis by auto
qed (use assms(2,3) in simp_all)

lemma two_ticks:
  assumes "pending s = before @ t # after" "is_tick t" "t \<noteq> TickSleep" "TickSleep \<in> set (pending s)"
  shows "2 \<le> in_flight is_tick (pending s)"
proof -
  from assms(1,3,4) have "TickSleep \<in> set (before @ after)" by auto
  from in_flight_member [OF this, of is_tick] assms(1,2) show ?thesis by simp
qed

lemma step_cooldown_ok:
  assumes "step X s s'" "guards_ok s" "cooldown_ok s"
  shows "cooldown_ok s'"
  using assms(1)
proof (cases rule: step.cases)
  case (timer a now p' ts)
  from tick_balanced [of "plat s" a now] timer(2) have "constants p' = constants (plat s)"
    by (simp add: balanced_def)
  moreover from timer(2) [THEN fst_eqD] have "failedLogins p' = failedLogins (plat s)" by auto
  ultimately show ?thesis using assms(3) unfolding timer(1) by (simp add: cooldown_ok_def)
next
  case (resumed before t after r a now p' ts)
  have mem: "t \<in> set (pending s)" using resumed(2) by simp
  have g: "in_flight is_tick (pending s) = flag (isSyncing (plat s))"
    "in_flight is_keepAlive (pending s) = flag (isAdtKeepingAlive (plat s))"
    "in_flight is_syncCheck (pending s) = flag (isAdtSyncChecking (plat s))"
    using assms(2) by (simp_all add: guards_ok_def)
  have "balanced [t] (plat s) (p', ts)"
    by (rule resume_balanced [OF resumed(3)]) (auto intro: guarded [OF mem _ g(1)]
        guarded [OF mem _ g(2)] guarded [OF mem _ g(3)])
  then have k: "constants p' = constants (plat s)" by (simp add: balanced_def)
  from assms(3) have c: "constants (plat s) = initial_constants" "0 \<le> failedLogins (plat s)"
    "failedLogins (plat s) \<le> 3" "failedLogins (plat s) = 3 \<longrightarrow> TickSleep \<in> set (pending s)"
    by (simp_all add: cooldown_ok_def)
  have m: "maxLoginRetries (constants (plat s)) = 3" by (simp add: c(1) initial_constants_def)
  show ?thesis
  proof (cases "is_tick t")
    case False
    from failedLogins_other_tasks [OF resumed(3) False]
    have f: "failedLogins p' = failedLogins (plat s)" .
    have "TickSleep \<in> set (before @ ts @ after)" if "TickSleep \<in> set (pending s)"
      using that False resumed(2) by auto
    with f k c show ?thesis unfolding resumed(1) by (simp add: cooldown_ok_def)
  next
    case tick: True
    show ?thesis
    proof (cases "t = TickSleep")
      case True
      with resumed(3) have "p' = fst (tick_sleep_done (plat s))" by (cases r) auto
      then have "failedLogins p' = 0" by (simp add: tick_sleep_done_def finish_sync_def)
      with k c show ?thesis unfolding resumed(1) by (simp add: cooldown_ok_def)
    next
      case False
      have "TickSleep \<notin> set (pending s)"
      proof
        assume "TickSleep \<in> set (pending s)"
        from two_ticks [OF resumed(2) tick False this] g(1) flag_le_1 [of "isSyncing (plat s)"]
        show False by simp
      qed
      with c have lt: "failedLogins (plat s) < maxLoginRetries (constants (plat s))"
        unfolding m by auto
      from tick_task_cooldown [OF resumed(3) tick False c(2) lt k] k c m show ?thesis
        unfolding resumed(1) by (auto simp: cooldown_ok_def)
    qed
  qed
qed

lemma reachable_cooldown_ok: "reachable X s \<Longrightarrow> cooldown_ok s"
proof (induction rule: reachable.induct)
  case (started raw c cached p)
  from launched_platform [OF started] show ?case by (simp add: cooldown_ok_def)
next
  case (stepped s s')
  from step_cooldown_ok [OF stepped(2) reachable_guards_ok [OF stepped(1)] stepped.IH]
  show ?case .
qed

text \<open>
  Claim C1, as amended. In every reachable system the maximum is 3 and the cooldown
  1800000 ms; the failed-login count is between 0 and 3, and stands at 3 only while the
  tick that reached it is suspended in its cooldown sleep. A successful login, and the
  detector call that may follow it, leave the count as it is; a failed login adds one,
  and when that makes three the tick calls \<open>sleep\<close> with the cooldown and is suspended
  there. When the sleep returns the count is reset to zero and the tick ends.
\<close>

theorem failed_login_counter:
  assumes "reachable X s"
  shows "maxLoginRetries (constants (plat s)) = 3 \<and> suspendSyncing (constants (plat s)) = 1800000
     \<and> 0 \<le> failedLogins (plat s) \<and> failedLogins (plat s) \<le> 3
     \<and> (failedLogins (plat s) = 3 \<longrightarrow> TickSleep \<in> set (pending s))
     \<and> failedLogins (fst (tick_login_done X (Returned (True, pv)) a now (plat s)))
         = failedLogins (plat s)
     \<and> failedLogins (fst (tick_detect_done X pv (Returned b) a now (plat s)))
         = failedLogins (plat s)
     \<and> failedLogins (fst (tick_login_done X (Returned (False, pv)) a now (plat s)))
         = failedLogins (plat s) + 1
     \<and> (failedLogins (plat s) = 2 \<longrightarrow>
           snd (tick_login_done X (Returned (False, pv)) a now (plat s)) = [TickSleep]
         \<and> last (trace (fst (tick_login_done X (Returned (False, pv)) a now (plat s))))
             = CallSleep 1800000)
     \<and> failedLogins (fst (tick_sleep_done (plat s))) = 0
     \<and> snd (tick_sleep_done (plat s)) = []
     \<and> \<not> isSyncing (fst (tick_sleep_done (plat s)))"
proof -
  from reachable_cooldown_ok [OF assms]
  have c: "constants (plat s) = initial_constants" "0 \<le> failedLogins (plat s)"
    "failedLogins (plat s) \<le> 3" "failedLogins (plat s) = 3 \<longrightarrow> TickSleep \<in> set (pending s)"
    by (simp_all add: cooldown_ok_def)
  have m: "maxLoginRetries (constants (plat s)) = 3" "suspendSyncing (constants (plat s)) = 1800000"
    by (simp_all add: c(1) initial_constants_def)
  have s: "snd (tick_login_done X (Returned (False, pv)) a now (plat s)) = [TickSleep]
         \<and> last (trace (fst (tick_login_done X (Returned (False, pv)) a now (plat s))))
             = CallSleep 1800000" if "failedLogins (plat s) = 2"
    using login_failed_cooldown [of "plat s" X pv a now] that m by simp
  have z: "failedLogins (fst (tick_sleep_done (plat s))) = 0"
    "snd (tick_sleep_done (plat s)) = []" "\<not> isSyncing (fst (tick_sleep_done (plat s)))"
    by (simp_all add: tick_sleep_done_def finish_sync_def)
  from c m s z show ?thesis by simp
qed


lemma ex_two_failures_run:
  "map_option (\<lambda>s. (failedLogins (plat s), pending s))
     (run ex_externals ex_two_failures_then_login ex_started) = Some (2, [TickLogin])"
  by (simp add: ex_two_failures_then_login_def ex_started_plat ex_started_pending
      initial_platform_def initial_constants_def ex_externals_def sched_defs)

lemma ex_three_failures_run:
  "map_option (\<lambda>s. (failedLogins (plat s), pending s))
     (run ex_externals ex_three_failures ex_started) = Some (3, [TickSleep])"
  by (simp add: ex_three_failures_def ex_two_failures_then_login_def ex_started_plat
      ex_started_pending initial_platform_def initial_constants_def ex_externals_def sched_defs)

text \<open>The amended C1 after two failed logins, at the third attempt, and after it.\<close>

theorem failed_login_counter_witness:
  "failedLogins (plat (ex_after ex_two_failures_then_login)) = 2
   \<and> pending (ex_after ex_two_failures_then_login) = [TickLogin]
   \<and> snd (tick_login_done ex_externals (Returned (False, ''v1'')) False 3500
          (plat (ex_after ex_two_failures_then_login))) = [TickSleep]
   \<and> last (trace (fst (tick_login_done ex_externals (Returned (False, ''v1'')) False 3500
          (plat (ex_after ex_two_failures_then_login))))) = CallSleep 1800000
   \<and> failedLogins (plat (ex_after ex_three_failures)) = 3
   \<and> pending (ex_after ex_three_failures) = [TickSleep]
   \<and> failedLogins (fst (tick_sleep_done (plat (ex_after ex_three_failures)))) = 0"
proof -
  from ex_after_eq [OF ex_two_failures_run]
  have r2: "run ex_externals ex_two_failures_then_login ex_started
      = Some (ex_after ex_two_failures_then_login)"
    and f2: "failedLogins (plat (ex_after ex_two_failures_then_login)) = 2"
    and p2: "pending (ex_after ex_two_failures_then_login) = [TickLogin]"
    by simp_all
  from ex_after_eq [OF ex_three_failures_run]
  have r3: "run ex_externals ex_three_failures ex_started = Some (ex_after ex_three_failures)"
    and f3: "failedLogins (plat (ex_after ex_three_failures)) = 3"
    and p3: "pending (ex_after ex_three_failures) = [TickSleep]"
    by simp_all
  note t2 = failed_login_counter [OF ex_after_reachable [OF r2],
      where pv = "''v1''" and a = False and now = 3500]
  note t3 = failed_login_counter [OF ex_after_reachable [OF r3]]
  from t2 f2 have a:
    "snd (tick_login_done ex_externals (Returned (False, ''v1'')) False 3500
          (plat (ex_after ex_two_failures_then_login))) = [TickSleep]"
    "last (trace (fst (tick_login_done ex_externals (Returned (False, ''v1'')) False 3500
          (plat (ex_after ex_two_failures_then_login))))) = CallSleep 1800000"
    by blast+
  from t3 have b: "failedLogins (fst (tick_sleep_done (plat (ex_after ex_three_failures)))) = 0"
    by blast
  from f2 p2 a f3 p3 b show ?thesis by blast
qed

text \<open>Claim C1 as stated fails: after one failed login the count is 1, and a login that
  then succeeds, with its tick run to the end, leaves it at 1.\<close>

theorem successful_login_keeps_count_counterexample:
  "map_option (\<lambda>s. (failedLogins (plat s), pending s))
     (run ex_externals ex_failure_then_login ex_started) = Some (1, [TickLogin])
   \<and> map_option (\<lambda>s. (failedLogins (plat s), pending s, isSyncing (plat s)))
     (run ex_externals
        (ex_failure_then_login @ [Resume 0 (LoginDone (Returned (True, ''v1''))) True 2500,
                                  Resume 0 (DetectDone (Returned True)) True 2600])
        ex_started) = Some (1, [], False)"
  by (simp add: ex_failure_then_login_def ex_started_plat ex_started_pending
      initial_platform_def initial_constants_def ex_externals_def sched_defs)

end
